theory Spec2Isabelle
  imports Main "HOL-Library.Multiset" "HOL-Library.Sublist"
begin

section \<open>Data model (main.go, lines 10-35)\<close>

text \<open>
  Go strings are byte sequences; they are modelled as \<^typ>\<open>string\<close>, one \<^typ>\<open>char\<close>
  per byte, so the Cyrillic prompts of the catalog appear as their UTF-8 bytes.
  Go's \<^verbatim>\<open>int\<close> is modelled as \<^typ>\<open>int\<close>; the program does no arithmetic on it, and the
  decoder below accepts only literals in the 64-bit range. A slice is a list; the nil
  slice and the empty slice are both \<^term>\<open>[]\<close> (no operation of the program tells
  them apart).
\<close>

record Question =
  ID :: int
  Text :: string
  Type :: string

record Answer =
  QuestionID :: int
  Value :: string

record AnswersRequest =
  Answers :: "Answer list"

text \<open>The catalog: ``Kak vas zovut?'', ``Skol'ko vam let?'', ``Vash lyubimyj yazyk
  programmirovaniya?'', ``Gotovy uchit' Go glubzhe?'' in UTF-8.\<close>

definition questions :: "Question list" where
  "questions =
    [\<lparr>ID = 1,
      Text = [CHR 0xD0, CHR 0x9A, CHR 0xD0, CHR 0xB0, CHR 0xD0, CHR 0xBA] @ '' '' @
             [CHR 0xD0, CHR 0xB2, CHR 0xD0, CHR 0xB0, CHR 0xD1, CHR 0x81] @ '' '' @
             [CHR 0xD0, CHR 0xB7, CHR 0xD0, CHR 0xBE, CHR 0xD0, CHR 0xB2, CHR 0xD1, CHR 0x83,
              CHR 0xD1, CHR 0x82] @ ''?'',
      Type = ''text''\<rparr>,
     \<lparr>ID = 2,
      Text = [CHR 0xD0, CHR 0xA1, CHR 0xD0, CHR 0xBA, CHR 0xD0, CHR 0xBE, CHR 0xD0, CHR 0xBB,
              CHR 0xD1, CHR 0x8C, CHR 0xD0, CHR 0xBA, CHR 0xD0, CHR 0xBE] @ '' '' @
             [CHR 0xD0, CHR 0xB2, CHR 0xD0, CHR 0xB0, CHR 0xD0, CHR 0xBC] @ '' '' @
             [CHR 0xD0, CHR 0xBB, CHR 0xD0, CHR 0xB5, CHR 0xD1, CHR 0x82] @ ''?'',
      Type = ''number''\<rparr>,
     \<lparr>ID = 3,
      Text = [CHR 0xD0, CHR 0x92, CHR 0xD0, CHR 0xB0, CHR 0xD1, CHR 0x88] @ '' '' @
             [CHR 0xD0, CHR 0xBB, CHR 0xD1, CHR 0x8E, CHR 0xD0, CHR 0xB1, CHR 0xD0, CHR 0xB8,
              CHR 0xD0, CHR 0xBC, CHR 0xD1, CHR 0x8B, CHR 0xD0, CHR 0xB9] @ '' '' @
             [CHR 0xD1, CHR 0x8F, CHR 0xD0, CHR 0xB7, CHR 0xD1, CHR 0x8B, CHR 0xD0, CHR 0xBA] @
             '' '' @
             [CHR 0xD0, CHR 0xBF, CHR 0xD1, CHR 0x80, CHR 0xD0, CHR 0xBE, CHR 0xD0, CHR 0xB3,
              CHR 0xD1, CHR 0x80, CHR 0xD0, CHR 0xB0, CHR 0xD0, CHR 0xBC, CHR 0xD0, CHR 0xBC,
              CHR 0xD0, CHR 0xB8, CHR 0xD1, CHR 0x80, CHR 0xD0, CHR 0xBE, CHR 0xD0, CHR 0xB2,
              CHR 0xD0, CHR 0xB0, CHR 0xD0, CHR 0xBD, CHR 0xD0, CHR 0xB8, CHR 0xD1, CHR 0x8F] @
             ''?'',
      Type = ''text''\<rparr>,
     \<lparr>ID = 4,
      Text = [CHR 0xD0, CHR 0x93, CHR 0xD0, CHR 0xBE, CHR 0xD1, CHR 0x82, CHR 0xD0, CHR 0xBE,
              CHR 0xD0, CHR 0xB2, CHR 0xD1, CHR 0x8B] @ '' '' @
             [CHR 0xD1, CHR 0x83, CHR 0xD1, CHR 0x87, CHR 0xD0, CHR 0xB8, CHR 0xD1, CHR 0x82,
              CHR 0xD1, CHR 0x8C] @ '' Go '' @
             [CHR 0xD0, CHR 0xB3, CHR 0xD0, CHR 0xBB, CHR 0xD1, CHR 0x83, CHR 0xD0, CHR 0xB1,
              CHR 0xD0, CHR 0xB6, CHR 0xD0, CHR 0xB5] @ ''?'',
      Type = ''text''\<rparr>]"

section \<open>The answer store (main.go, lines 32-41)\<close>

text \<open>
  The mutex is a flag: \<^verbatim>\<open>Lock\<close> on a held mutex blocks, so in a sequential run it
  never returns (\<^term>\<open>None\<close>); \<^verbatim>\<open>Unlock\<close> releases it.
\<close>

record answerStore =
  mu :: bool
  answers :: "AnswersRequest list"

definition Lock :: "answerStore \<Rightarrow> answerStore option" where
  "Lock s = (if mu s then None else Some (s\<lparr>mu := True\<rparr>))"

definition Unlock :: "answerStore \<Rightarrow> answerStore" where
  "Unlock s = s\<lparr>mu := False\<rparr>"

definition save :: "answerStore \<Rightarrow> AnswersRequest \<Rightarrow> answerStore option" where
  "save s req =
    (case Lock s of
       None \<Rightarrow> None
     | Some s1 \<Rightarrow> Some (Unlock (s1\<lparr>answers := answers s1 @ [req]\<rparr>)))"

text \<open>Calls of \<open>save\<close> one after the other, each on the store the one before
  returned.\<close>

fun saveAll :: "answerStore \<Rightarrow> AnswersRequest list \<Rightarrow> answerStore option" where
  "saveAll s [] = Some s"
| "saveAll s (r # rs) = (case save s r of None \<Rightarrow> None | Some s' \<Rightarrow> saveAll s' rs)"

text \<open>\<^verbatim>\<open>&answerStore{answers: make([]AnswersRequest, 0)}\<close> of \<^verbatim>\<open>main\<close>.\<close>

definition newStore :: answerStore where
  "newStore = \<lparr>mu = False, answers = []\<rparr>"

text \<open>The stores a sequential run can reach: the fresh one, and any store after a
  returned \<^const>\<open>save\<close>.\<close>

inductive reachable :: "answerStore \<Rightarrow> bool" where
  reach_new: "reachable newStore"
| reach_save: "reachable s \<Longrightarrow> save s req = Some s' \<Longrightarrow> reachable s'"

section \<open>JSON values and the decoder\<close>

text \<open>
  \<^verbatim>\<open>json.NewDecoder(r.Body).Decode(&req)\<close> is a call into Go's standard library
  (\<^verbatim>\<open>encoding/json\<close>, Go 1.22 as the README requires). The handlers below take the
  decoder as a parameter; \<open>decodeRequest\<close> is a model of the library's behaviour for
  the struct types of lines 16-23, used to run the handlers on concrete bodies. It
  follows the library in two phases: the scanner reads the first JSON value of the body
  (bytes after it are left unread), then the value is stored into the struct by the
  types and \<^verbatim>\<open>json\<close> tags of its fields. The body is the complete request body; read
  errors of the connection are not modelled.
\<close>

datatype json =
  JNull
| JBool bool
| JNumber string
| JString string
| JArray "json list"
| JObject "(string \<times> json) list"

datatype error = EOF | ErrUnexpectedEOF | SyntaxError | UnmarshalTypeError | IOError string

definition byte :: "char \<Rightarrow> nat" where
  "byte c = of_char c"

definition isSpace :: "char \<Rightarrow> bool" where
  "isSpace c \<longleftrightarrow> c = CHR '' '' \<or> c = CHR 0x09 \<or> c = CHR 0x0D \<or> c = CHR 0x0A"

definition isDigit :: "char \<Rightarrow> bool" where
  "isDigit c \<longleftrightarrow> 48 \<le> byte c \<and> byte c \<le> 57"

definition isHex :: "char \<Rightarrow> bool" where
  "isHex c \<longleftrightarrow> isDigit c \<or> (97 \<le> byte c \<and> byte c \<le> 102) \<or> (65 \<le> byte c \<and> byte c \<le> 70)"

definition hexVal :: "char \<Rightarrow> nat" where
  "hexVal c = (if isDigit c then byte c - 48
               else if 97 \<le> byte c then byte c - 87 else byte c - 55)"

subsection \<open>UTF-8\<close>

definition isCont :: "char \<Rightarrow> bool" where
  "isCont c \<longleftrightarrow> 0x80 \<le> byte c \<and> byte c \<le> 0xBF"

text \<open>The length of the well-formed UTF-8 sequence at the head of the bytes, or 0 when
  there is none (\<^verbatim>\<open>utf8.DecodeRune\<close> then yields \<^verbatim>\<open>RuneError\<close> of width 1).\<close>

definition utf8Len :: "string \<Rightarrow> nat" where
  "utf8Len cs =
    (case cs of
       [] \<Rightarrow> 0
     | c0 # r0 \<Rightarrow>
        if byte c0 < 0x80 then 1
        else (case r0 of
           [] \<Rightarrow> 0
         | c1 # r1 \<Rightarrow>
            if 0xC2 \<le> byte c0 \<and> byte c0 \<le> 0xDF then (if isCont c1 then 2 else 0)
            else (case r1 of
               [] \<Rightarrow> 0
             | c2 # r2 \<Rightarrow>
                if 0xE0 \<le> byte c0 \<and> byte c0 \<le> 0xEF then
                  (if (if byte c0 = 0xE0 then 0xA0 \<le> byte c1 \<and> byte c1 \<le> 0xBF
                       else if byte c0 = 0xED then 0x80 \<le> byte c1 \<and> byte c1 \<le> 0x9F
                       else isCont c1) \<and> isCont c2
                   then 3 else 0)
                else (case r2 of
                   [] \<Rightarrow> 0
                 | c3 # r3 \<Rightarrow>
                    if 0xF0 \<le> byte c0 \<and> byte c0 \<le> 0xF4 then
                      (if (if byte c0 = 0xF0 then 0x90 \<le> byte c1 \<and> byte c1 \<le> 0xBF
                           else if byte c0 = 0xF4 then 0x80 \<le> byte c1 \<and> byte c1 \<le> 0x8F
                           else isCont c1) \<and> isCont c2 \<and> isCont c3
                       then 4 else 0)
                    else 0))))"

definition runeError :: string where
  "runeError = [CHR 0xEF, CHR 0xBF, CHR 0xBD]"

text \<open>\<^verbatim>\<open>utf8.EncodeRune\<close>: surrogates and values beyond U+10FFFF become U+FFFD.\<close>

definition encodeRune :: "nat \<Rightarrow> string" where
  "encodeRune r =
    (if r < 0x80 then [char_of r]
     else if r < 0x800 then [char_of (0xC0 + r div 64), char_of (0x80 + r mod 64)]
     else if (0xD800 \<le> r \<and> r < 0xE000) \<or> 0x10FFFF < r then runeError
     else if r < 0x10000 then
       [char_of (0xE0 + r div 4096), char_of (0x80 + (r div 64) mod 64), char_of (0x80 + r mod 64)]
     else
       [char_of (0xF0 + r div 262144), char_of (0x80 + (r div 4096) mod 64),
        char_of (0x80 + (r div 64) mod 64), char_of (0x80 + r mod 64)])"

subsection \<open>Unquoting a string literal\<close>

text \<open>\<^verbatim>\<open>getu4\<close>: the value of a \<^verbatim>\<open>\uXXXX\<close> escape at the head, if there is one.\<close>

definition getu4 :: "string \<Rightarrow> nat option" where
  "getu4 s =
    (case s of
       b # u # h1 # h2 # h3 # h4 # _ \<Rightarrow>
         if b = CHR 0x5C \<and> u = CHR ''u'' \<and> isHex h1 \<and> isHex h2 \<and> isHex h3 \<and> isHex h4
         then Some (((hexVal h1 * 16 + hexVal h2) * 16 + hexVal h3) * 16 + hexVal h4)
         else None
     | _ \<Rightarrow> None)"

definition isSurrogate :: "nat \<Rightarrow> bool" where
  "isSurrogate r \<longleftrightarrow> 0xD800 \<le> r \<and> r < 0xE000"

text \<open>\<^verbatim>\<open>utf16.DecodeRune\<close> of a surrogate pair; \<^term>\<open>None\<close> stands for U+FFFD.\<close>

definition decodePair :: "nat \<Rightarrow> nat option \<Rightarrow> nat option" where
  "decodePair r1 r2o =
    (case r2o of
       None \<Rightarrow> None
     | Some r2 \<Rightarrow>
         if 0xD800 \<le> r1 \<and> r1 < 0xDC00 \<and> 0xDC00 \<le> r2 \<and> r2 < 0xE000
         then Some ((r1 - 0xD800) * 1024 + (r2 - 0xDC00) + 0x10000)
         else None)"

definition escChar :: "char \<Rightarrow> char" where
  "escChar e =
    (if e = CHR ''b'' then CHR 0x08
     else if e = CHR ''f'' then CHR 0x0C
     else if e = CHR ''n'' then CHR 0x0A
     else if e = CHR ''r'' then CHR 0x0D
     else if e = CHR ''t'' then CHR 0x09
     else e)"

text \<open>\<^verbatim>\<open>unquoteBytes\<close> on the bytes between the quotes of a literal the scanner has
  accepted: escapes are replaced, and bytes that are not well-formed UTF-8 become
  U+FFFD.\<close>

function unquote :: "string \<Rightarrow> string" where
  "unquote [] = []"
| "unquote (c # cs) =
    (if c = CHR 0x5C then
       (case cs of
          [] \<Rightarrow> []
        | e # r \<Rightarrow>
            if e = CHR ''u'' then
              (case getu4 (c # cs) of
                 None \<Rightarrow> []
               | Some rr \<Rightarrow>
                   if isSurrogate rr then
                     (case decodePair rr (getu4 (drop 5 cs)) of
                        Some dec \<Rightarrow> encodeRune dec @ unquote (drop 11 cs)
                      | None \<Rightarrow> runeError @ unquote (drop 5 cs))
                   else encodeRune rr @ unquote (drop 5 cs))
            else escChar e # unquote r)
     else if byte c < 0x80 then c # unquote cs
     else if utf8Len (c # cs) = 0 then runeError @ unquote cs
     else take (utf8Len (c # cs)) (c # cs) @ unquote (drop (utf8Len (c # cs) - 1) cs))"
  by pat_completeness auto
termination
  by (relation "measure length") auto

subsection \<open>The scanner\<close>

text \<open>
  The library's scanner is a state machine over the bytes with a stack of the open
  arrays and objects; so is the model, which also builds the value it has read. A
  frame of the stack holds what has been read of its array or object.
\<close>

datatype scanState =
  SBeginValue
| SBeginValueOrEmpty
| SBeginStringOrEmpty
| SBeginString
| SInString string
| SInStringEsc string
| SInStringEscU string nat
| SNeg
| SNum1 string
| SNum0 string
| SDot string
| SDot0 string
| SE string
| SESign string
| SE0 string
| SLit string json
| SEndValue
| SDone json
| SError error

datatype frame =
  FArr "json list"
| FKey "(string \<times> json) list"
| FColon "(string \<times> json) list" string
| FVal "(string \<times> json) list" string
| FMem "(string \<times> json) list"

type_synonym scanner = "scanState \<times> frame list"

definition maxNestingDepth :: nat where
  "maxNestingDepth = 10000"

text \<open>A value has been read: it is the result at top level, and otherwise goes into
  the innermost open array or object.\<close>

fun complete :: "json \<Rightarrow> frame list \<Rightarrow> scanner" where
  "complete v [] = (SDone v, [])"
| "complete v (FArr es # stk) = (SEndValue, FArr (es @ [v]) # stk)"
| "complete v (FVal ms k # stk) = (SEndValue, FMem (ms @ [(k, v)]) # stk)"
| "complete v (FKey ms # stk) =
    (case v of JString k \<Rightarrow> (SEndValue, FColon ms k # stk) | _ \<Rightarrow> (SError SyntaxError, FKey ms # stk))"
| "complete v (f # stk) = (SError SyntaxError, f # stk)"

text \<open>\<^verbatim>\<open>stateEndValue\<close> inside an array or object.\<close>

fun endValue :: "char \<Rightarrow> frame list \<Rightarrow> scanner" where
  "endValue c stk =
    (if isSpace c then (SEndValue, stk)
     else (case stk of
        FArr es # rest \<Rightarrow>
          if c = CHR '','' then (SBeginValue, stk)
          else if c = CHR '']'' then complete (JArray es) rest
          else (SError SyntaxError, stk)
      | FColon ms k # rest \<Rightarrow>
          if c = CHR '':'' then (SBeginValue, FVal ms k # rest)
          else (SError SyntaxError, stk)
      | FMem ms # rest \<Rightarrow>
          if c = CHR '','' then (SBeginString, FKey ms # rest)
          else if c = CHR ''}'' then complete (JObject ms) rest
          else (SError SyntaxError, stk)
      | _ \<Rightarrow> (SError SyntaxError, stk)))"

text \<open>A number or literal ends before the byte \<open>c\<close>, which is then read in the state
  after the value.\<close>

definition finish :: "json \<Rightarrow> char \<Rightarrow> frame list \<Rightarrow> scanner" where
  "finish v c stk =
    (case complete v stk of
       (SEndValue, stk') \<Rightarrow> endValue c stk'
     | r \<Rightarrow> r)"

text \<open>\<^verbatim>\<open>stateBeginValue\<close>; \<open>st\<close> is the state to stay in over white space.\<close>

definition beginValue :: "scanState \<Rightarrow> char \<Rightarrow> frame list \<Rightarrow> scanner" where
  "beginValue st c stk =
    (if isSpace c then (st, stk)
     else if c = CHR ''{'' then
       (if maxNestingDepth \<le> length stk then (SError SyntaxError, stk)
        else (SBeginStringOrEmpty, FKey [] # stk))
     else if c = CHR ''['' then
       (if maxNestingDepth \<le> length stk then (SError SyntaxError, stk)
        else (SBeginValueOrEmpty, FArr [] # stk))
     else if c = CHR 0x22 then (SInString [], stk)
     else if c = CHR ''-'' then (SNeg, stk)
     else if c = CHR ''0'' then (SNum0 [c], stk)
     else if c = CHR ''t'' then (SLit ''rue'' (JBool True), stk)
     else if c = CHR ''f'' then (SLit ''alse'' (JBool False), stk)
     else if c = CHR ''n'' then (SLit ''ull'' JNull, stk)
     else if isDigit c then (SNum1 [c], stk)
     else (SError SyntaxError, stk))"

definition num0 :: "string \<Rightarrow> char \<Rightarrow> frame list \<Rightarrow> scanner" where
  "num0 lit c stk =
    (if c = CHR ''.'' then (SDot (lit @ [c]), stk)
     else if c = CHR ''e'' \<or> c = CHR ''E'' then (SE (lit @ [c]), stk)
     else finish (JNumber lit) c stk)"

definition eSign :: "string \<Rightarrow> char \<Rightarrow> frame list \<Rightarrow> scanner" where
  "eSign lit c stk =
    (if isDigit c then (SE0 (lit @ [c]), stk) else (SError SyntaxError, stk))"

fun step :: "scanner \<Rightarrow> char \<Rightarrow> scanner" where
  "step (SBeginValue, stk) c = beginValue SBeginValue c stk"
| "step (SBeginValueOrEmpty, stk) c =
    (if isSpace c then (SBeginValueOrEmpty, stk)
     else if c = CHR '']'' then
       (case stk of FArr es # rest \<Rightarrow> complete (JArray es) rest | _ \<Rightarrow> (SError SyntaxError, stk))
     else beginValue SBeginValue c stk)"
| "step (SBeginStringOrEmpty, stk) c =
    (if isSpace c then (SBeginStringOrEmpty, stk)
     else if c = CHR ''}'' then
       (case stk of FKey ms # rest \<Rightarrow> complete (JObject ms) rest | _ \<Rightarrow> (SError SyntaxError, stk))
     else if c = CHR 0x22 then (SInString [], stk)
     else (SError SyntaxError, stk))"
| "step (SBeginString, stk) c =
    (if isSpace c then (SBeginString, stk)
     else if c = CHR 0x22 then (SInString [], stk)
     else (SError SyntaxError, stk))"
| "step (SInString raw, stk) c =
    (if c = CHR 0x22 then complete (JString (unquote raw)) stk
     else if c = CHR 0x5C then (SInStringEsc (raw @ [c]), stk)
     else if byte c < 0x20 then (SError SyntaxError, stk)
     else (SInString (raw @ [c]), stk))"
| "step (SInStringEsc raw, stk) c =
    (if c \<in> set ''bfnrt/'' \<or> c = CHR 0x5C \<or> c = CHR 0x22 then (SInString (raw @ [c]), stk)
     else if c = CHR ''u'' then (SInStringEscU (raw @ [c]) 0, stk)
     else (SError SyntaxError, stk))"
| "step (SInStringEscU raw n, stk) c =
    (if isHex c then
       (if 3 \<le> n then (SInString (raw @ [c]), stk) else (SInStringEscU (raw @ [c]) (Suc n), stk))
     else (SError SyntaxError, stk))"
| "step (SNeg, stk) c =
    (if c = CHR ''0'' then (SNum0 ''-0'', stk)
     else if isDigit c then (SNum1 (''-'' @ [c]), stk)
     else (SError SyntaxError, stk))"
| "step (SNum1 lit, stk) c =
    (if isDigit c then (SNum1 (lit @ [c]), stk) else num0 lit c stk)"
| "step (SNum0 lit, stk) c = num0 lit c stk"
| "step (SDot lit, stk) c =
    (if isDigit c then (SDot0 (lit @ [c]), stk) else (SError SyntaxError, stk))"
| "step (SDot0 lit, stk) c =
    (if isDigit c then (SDot0 (lit @ [c]), stk)
     else if c = CHR ''e'' \<or> c = CHR ''E'' then (SE (lit @ [c]), stk)
     else finish (JNumber lit) c stk)"
| "step (SE lit, stk) c =
    (if c = CHR ''+'' \<or> c = CHR ''-'' then (SESign (lit @ [c]), stk) else eSign lit c stk)"
| "step (SESign lit, stk) c = eSign lit c stk"
| "step (SE0 lit, stk) c =
    (if isDigit c then (SE0 (lit @ [c]), stk) else finish (JNumber lit) c stk)"
| "step (SLit expect v, stk) c =
    (case expect of
       [] \<Rightarrow> (SError SyntaxError, stk)
     | x # xs \<Rightarrow>
         if c = x then (if xs = [] then complete v stk else (SLit xs v, stk))
         else (SError SyntaxError, stk))"
| "step (SEndValue, stk) c = endValue c stk"
| "step (SDone v, stk) c = (SDone v, stk)"
| "step (SError e, stk) c = (SError e, stk)"

text \<open>The end of the body: a value read in full is the result, a number at top level
  ends here, a body of white space only is \<^verbatim>\<open>io.EOF\<close>, and anything else is cut
  short.\<close>

fun atEOF :: "scanner \<Rightarrow> error + json" where
  "atEOF (SDone v, stk) = Inr v"
| "atEOF (SError e, stk) = Inl e"
| "atEOF (SBeginValue, []) = Inl EOF"
| "atEOF (SNum1 lit, []) = Inr (JNumber lit)"
| "atEOF (SNum0 lit, []) = Inr (JNumber lit)"
| "atEOF (SDot0 lit, []) = Inr (JNumber lit)"
| "atEOF (SE0 lit, []) = Inr (JNumber lit)"
| "atEOF (st, stk) = Inl ErrUnexpectedEOF"

definition readValue :: "string \<Rightarrow> error + json" where
  "readValue body = atEOF (foldl step (SBeginValue, []) body)"

subsection \<open>Storing the value into the request\<close>

text \<open>
  A key of an object selects the field whose \<^verbatim>\<open>json\<close> name it equals, or else equals
  after case folding. Folding maps the letters a-z to A-Z, and the two letters beyond
  ASCII that fold into ASCII, U+017F to S and U+212A to K; it leaves every other byte as
  it is, which cannot then equal a byte of a field name.
\<close>

function foldName :: "string \<Rightarrow> string" where
  "foldName [] = []"
| "foldName (c # cs) =
    (if 97 \<le> byte c \<and> byte c \<le> 122 then char_of (byte c - 32) # foldName cs
     else if c = CHR 0xC5 \<and> take 1 cs = [CHR 0xBF] then CHR ''S'' # foldName (drop 1 cs)
     else if c = CHR 0xE2 \<and> take 2 cs = [CHR 0x84, CHR 0xAA] then CHR ''K'' # foldName (drop 2 cs)
     else c # foldName cs)"
  by pat_completeness auto
termination
  by (relation "measure length") auto

definition fieldMatch :: "string \<Rightarrow> string \<Rightarrow> bool" where
  "fieldMatch name key \<longleftrightarrow> key = name \<or> foldName key = foldName name"

text \<open>\<^verbatim>\<open>strconv.ParseInt(lit, 10, 64)\<close> on a number literal of the scanner: digits
  after an optional minus sign, in the range of \<^verbatim>\<open>int64\<close>.\<close>

definition parseInt :: "string \<Rightarrow> int option" where
  "parseInt lit =
    (let ds = (if take 1 lit = ''-'' then drop 1 lit else lit);
         n = foldl (\<lambda>a d. a * 10 + (int (byte d) - 48)) 0 ds;
         v = (if take 1 lit = ''-'' then - n else n)
     in if ds \<noteq> [] \<and> list_all isDigit ds \<and> - (2 ^ 63) \<le> v \<and> v < 2 ^ 63
        then Some v else None)"

text \<open>Each function takes the value and the field's present content and returns the new
  content and whether the value had a type the field accepts. \<^verbatim>\<open>null\<close> leaves an
  \<^verbatim>\<open>int\<close>, a \<^verbatim>\<open>string\<close> and a struct as they are, and makes a slice nil. A value of
  another type is an \<^verbatim>\<open>UnmarshalTypeError\<close>: the library records the first one, goes
  on with the rest of the value and returns the error at the end.\<close>

definition storeInt :: "json \<Rightarrow> int \<Rightarrow> int \<times> bool" where
  "storeInt j old =
    (case j of
       JNull \<Rightarrow> (old, True)
     | JNumber lit \<Rightarrow> (case parseInt lit of Some n \<Rightarrow> (n, True) | None \<Rightarrow> (old, False))
     | _ \<Rightarrow> (old, False))"

definition storeString :: "json \<Rightarrow> string \<Rightarrow> string \<times> bool" where
  "storeString j old =
    (case j of
       JNull \<Rightarrow> (old, True)
     | JString s \<Rightarrow> (s, True)
     | _ \<Rightarrow> (old, False))"

definition answerField :: "Answer \<times> bool \<Rightarrow> string \<times> json \<Rightarrow> Answer \<times> bool" where
  "answerField st kv =
    (case st of (a, ok) \<Rightarrow>
     case kv of (k, v) \<Rightarrow>
       if fieldMatch ''questionId'' k then
         (case storeInt v (QuestionID a) of (n, ok') \<Rightarrow> (a\<lparr>QuestionID := n\<rparr>, ok \<and> ok'))
       else if fieldMatch ''value'' k then
         (case storeString v (Value a) of (x, ok') \<Rightarrow> (a\<lparr>Value := x\<rparr>, ok \<and> ok'))
       else (a, ok))"

definition storeAnswer :: "json \<Rightarrow> Answer \<Rightarrow> Answer \<times> bool" where
  "storeAnswer j old =
    (case j of
       JNull \<Rightarrow> (old, True)
     | JObject ms \<Rightarrow> foldl answerField (old, True) ms
     | _ \<Rightarrow> (old, False))"

definition zeroAnswer :: Answer where
  "zeroAnswer = \<lparr>QuestionID = 0, Value = []\<rparr>"

text \<open>
  The slice while it is decoded: the elements written so far into its backing array, and
  its length. An array is stored element by element into the slots of the backing array:
  a slot written before (by an earlier occurrence of the key in the same object) keeps
  its content where the new element does not set a field, a new slot starts from the
  zero \<^verbatim>\<open>Answer\<close>. The length becomes the number of elements; an empty array gives a
  new empty slice.
\<close>

fun storeElems :: "json list \<Rightarrow> nat \<Rightarrow> Answer list \<Rightarrow> bool \<Rightarrow> Answer list \<times> bool" where
  "storeElems [] i back ok = (back, ok)"
| "storeElems (e # es) i back ok =
    (if i < length back then
       (case storeAnswer e (back ! i) of (a, ok') \<Rightarrow>
          storeElems es (Suc i) (back[i := a]) (ok \<and> ok'))
     else
       (case storeAnswer e zeroAnswer of (a, ok') \<Rightarrow>
          storeElems es (Suc i) (back @ [a]) (ok \<and> ok')))"

definition storeSlice :: "json \<Rightarrow> Answer list \<times> nat \<Rightarrow> (Answer list \<times> nat) \<times> bool" where
  "storeSlice j sl =
    (case j of
       JNull \<Rightarrow> (([], 0), True)
     | JArray es \<Rightarrow>
         if es = [] then (([], 0), True)
         else (case storeElems es 0 (fst sl) True of (back, ok) \<Rightarrow> ((back, length es), ok))
     | _ \<Rightarrow> (sl, False))"

definition requestField ::
  "(Answer list \<times> nat) \<times> bool \<Rightarrow> string \<times> json \<Rightarrow> (Answer list \<times> nat) \<times> bool" where
  "requestField st kv =
    (case st of (sl, ok) \<Rightarrow>
     case kv of (k, v) \<Rightarrow>
       if fieldMatch ''answers'' k then
         (case storeSlice v sl of (sl', ok') \<Rightarrow> (sl', ok \<and> ok'))
       else (sl, ok))"

text \<open>\<^verbatim>\<open>var req AnswersRequest\<close> starts as the zero value, a nil slice.\<close>

definition unmarshal :: "json \<Rightarrow> error + AnswersRequest" where
  "unmarshal j =
    (case (case j of
             JNull \<Rightarrow> (([], 0), True)
           | JObject ms \<Rightarrow> foldl requestField (([], 0), True) ms
           | _ \<Rightarrow> (([], 0), False)) of
       ((back, n), ok) \<Rightarrow>
         if ok then Inr \<lparr>Answers = take n back\<rparr> else Inl UnmarshalTypeError)"

definition decodeRequest :: "string \<Rightarrow> error + AnswersRequest" where
  "decodeRequest body =
    (case readValue body of
       Inl e \<Rightarrow> Inl e
     | Inr j \<Rightarrow> unmarshal j)"

subsection \<open>The shapes the decoder accepts\<close>

text \<open>
  A description of the values that store without a type error, written from the rules
  of the library's documentation rather than from the functions above, and compared
  with them below: \<^verbatim>\<open>null\<close> fits every field; an \<^verbatim>\<open>int\<close> field takes a number that is
  an integer of 64 bits, a \<^verbatim>\<open>string\<close> field a string, a struct an object whose members
  fit the fields they name (members that name no field are ignored), a slice an array
  whose elements fit.
\<close>

definition intShape :: "json \<Rightarrow> bool" where
  "intShape j = (case j of JNull \<Rightarrow> True | JNumber lit \<Rightarrow> parseInt lit \<noteq> None | _ \<Rightarrow> False)"

definition stringShape :: "json \<Rightarrow> bool" where
  "stringShape j = (case j of JNull \<Rightarrow> True | JString s \<Rightarrow> True | _ \<Rightarrow> False)"

definition answerMemberShape :: "string \<times> json \<Rightarrow> bool" where
  "answerMemberShape kv =
    (if fieldMatch ''questionId'' (fst kv) then intShape (snd kv)
     else if fieldMatch ''value'' (fst kv) then stringShape (snd kv)
     else True)"

definition answerShape :: "json \<Rightarrow> bool" where
  "answerShape j =
    (case j of JNull \<Rightarrow> True | JObject ms \<Rightarrow> list_all answerMemberShape ms | _ \<Rightarrow> False)"

definition answersShape :: "json \<Rightarrow> bool" where
  "answersShape j =
    (case j of JNull \<Rightarrow> True | JArray es \<Rightarrow> list_all answerShape es | _ \<Rightarrow> False)"

definition requestMemberShape :: "string \<times> json \<Rightarrow> bool" where
  "requestMemberShape kv = (if fieldMatch ''answers'' (fst kv) then answersShape (snd kv) else True)"

definition requestShape :: "json \<Rightarrow> bool" where
  "requestShape j =
    (case j of JNull \<Rightarrow> True | JObject ms \<Rightarrow> list_all requestMemberShape ms | _ \<Rightarrow> False)"

section \<open>The encoder\<close>

text \<open>
  \<^verbatim>\<open>json.NewEncoder(w).Encode(payload)\<close>: the payload becomes a JSON value by the
  \<^verbatim>\<open>json\<close> tags of its type (lines 10-14), the value is written compactly with a
  newline after it, with the string escapes of the library (HTML-safe, as an
  \<^verbatim>\<open>Encoder\<close> does by default). The two payloads of the program are a slice of
  questions and a map from strings to strings, given as its entries in key order.
\<close>

datatype payload = PQuestions "Question list" | PStringMap "(string \<times> string) list"

function showNat :: "nat \<Rightarrow> string" where
  "showNat n = (if n < 10 then [char_of (48 + n)] else showNat (n div 10) @ [char_of (48 + n mod 10)])"
  by pat_completeness auto
termination
  by (relation "measure id") auto

definition showInt :: "int \<Rightarrow> string" where
  "showInt i = (if i < 0 then ''-'' @ showNat (nat (- i)) else showNat (nat i))"

definition marshalQuestion :: "Question \<Rightarrow> json" where
  "marshalQuestion q =
    JObject [(''id'', JNumber (showInt (ID q))), (''text'', JString (Text q)),
             (''type'', JString (Type q))]"

fun marshal :: "payload \<Rightarrow> json" where
  "marshal (PQuestions qs) = JArray (map marshalQuestion qs)"
| "marshal (PStringMap kvs) = JObject (map (\<lambda>kv. (fst kv, JString (snd kv))) kvs)"

definition hexDigit :: "nat \<Rightarrow> char" where
  "hexDigit n = (if n < 10 then char_of (48 + n) else char_of (87 + n))"

text \<open>One ASCII byte inside a string literal.\<close>

definition quoteByte :: "char \<Rightarrow> string" where
  "quoteByte c =
    (if c = CHR 0x5C \<or> c = CHR 0x22 then [CHR 0x5C, c]
     else if c = CHR 0x08 then [CHR 0x5C, CHR ''b'']
     else if c = CHR 0x0C then [CHR 0x5C, CHR ''f'']
     else if c = CHR 0x0A then [CHR 0x5C, CHR ''n'']
     else if c = CHR 0x0D then [CHR 0x5C, CHR ''r'']
     else if c = CHR 0x09 then [CHR 0x5C, CHR ''t'']
     else if byte c < 0x20 \<or> c = CHR ''<'' \<or> c = CHR ''>'' \<or> c = CHR ''&'' then
       [CHR 0x5C, CHR ''u'', CHR ''0'', CHR ''0'', hexDigit (byte c div 16), hexDigit (byte c mod 16)]
     else [c])"

function quoteBody :: "string \<Rightarrow> string" where
  "quoteBody [] = []"
| "quoteBody (c # cs) =
    (if byte c < 0x80 then quoteByte c @ quoteBody cs
     else if utf8Len (c # cs) = 0 then [CHR 0x5C] @ ''ufffd'' @ quoteBody cs
     else if c = CHR 0xE2 \<and> take 2 cs = [CHR 0x80, CHR 0xA8] then
       [CHR 0x5C] @ ''u2028'' @ quoteBody (drop 2 cs)
     else if c = CHR 0xE2 \<and> take 2 cs = [CHR 0x80, CHR 0xA9] then
       [CHR 0x5C] @ ''u2029'' @ quoteBody (drop 2 cs)
     else take (utf8Len (c # cs)) (c # cs) @ quoteBody (drop (utf8Len (c # cs) - 1) cs))"
  by pat_completeness auto
termination
  by (relation "measure length") auto

definition quote :: "string \<Rightarrow> string" where
  "quote s = [CHR 0x22] @ quoteBody s @ [CHR 0x22]"

fun render :: "json \<Rightarrow> string"
  and renderElems :: "json list \<Rightarrow> string"
  and renderMembers :: "(string \<times> json) list \<Rightarrow> string" where
  "render JNull = ''null''"
| "render (JBool b) = (if b then ''true'' else ''false'')"
| "render (JNumber lit) = lit"
| "render (JString s) = quote s"
| "render (JArray es) = ''['' @ renderElems es @ '']''"
| "render (JObject ms) = ''{'' @ renderMembers ms @ ''}''"
| "renderElems [] = []"
| "renderElems (e # es) = render e @ (if es = [] then [] else '','' @ renderElems es)"
| "renderMembers [] = []"
| "renderMembers (m # ms) =
    quote (fst m) @ '':'' @ render (snd m) @ (if ms = [] then [] else '','' @ renderMembers ms)"

definition encode :: "payload \<Rightarrow> string" where
  "encode p = render (marshal p) @ [CHR 0x0A]"

section \<open>The response writer\<close>

text \<open>
  What a handler does to its \<^verbatim>\<open>http.ResponseWriter\<close>: the header map, the status code
  once it is written, and the bytes of the body. Whether a write to the connection
  succeeds is not the program's to decide: the handlers take the behaviour of the
  connection as a parameter \<open>wr\<close>, which for the bytes to write gives how many of them
  were written and the error, if any.
\<close>

record ResponseWriter =
  header :: "string \<rightharpoonup> string"
  code :: "nat option"
  body :: string

type_synonym conn = "string \<Rightarrow> nat \<times> error option"

definition newResponseWriter :: ResponseWriter where
  "newResponseWriter = \<lparr>header = Map.empty, code = None, body = []\<rparr>"

text \<open>A connection that takes every write.\<close>

definition goodConn :: conn where
  "goodConn p = (length p, None)"

text \<open>A connection that is broken.\<close>

definition brokenConn :: conn where
  "brokenConn p = (0, Some (IOError ''broken pipe''))"

definition StatusOK :: nat where
  "StatusOK = 200"

definition StatusBadRequest :: nat where
  "StatusBadRequest = 400"

definition WriteHeader :: "ResponseWriter \<Rightarrow> nat \<Rightarrow> ResponseWriter" where
  "WriteHeader w status = (if code w = None then w\<lparr>code := Some status\<rparr> else w)"

definition Write :: "conn \<Rightarrow> ResponseWriter \<Rightarrow> string \<Rightarrow> ResponseWriter \<times> error option" where
  "Write wr w p =
    (case wr p of (n, err) \<Rightarrow>
       ((WriteHeader w StatusOK)\<lparr>body := body (WriteHeader w StatusOK) @ take n p\<rparr>, err))"

text \<open>\<^verbatim>\<open>http.Error\<close>: a plain-text reply; the error of the write is dropped.\<close>

definition Error :: "conn \<Rightarrow> ResponseWriter \<Rightarrow> string \<Rightarrow> nat \<Rightarrow> ResponseWriter" where
  "Error wr w msg status =
    (let w1 = w\<lparr>header := (header w)(''Content-Type'' \<mapsto> ''text/plain; charset=utf-8'')\<rparr>;
         w2 = w1\<lparr>header := (header w1)(''X-Content-Type-Options'' \<mapsto> ''nosniff'')\<rparr>;
         w3 = WriteHeader w2 status
     in fst (Write wr w3 (msg @ [CHR 0x0A])))"

section \<open>The handlers (main.go, lines 43-79)\<close>

text \<open>The server: the store that \<^verbatim>\<open>main\<close> creates, and the lines written to the log,
  each the format and the error printed.\<close>

record server =
  store :: answerStore
  logs :: "(string \<times> error) list"

definition newServer :: server where
  "newServer = \<lparr>store = newStore, logs = []\<rparr>"

definition writeJSON ::
  "conn \<Rightarrow> ResponseWriter \<Rightarrow> nat \<Rightarrow> payload \<Rightarrow> ResponseWriter \<times> (string \<times> error) list" where
  "writeJSON wr w status p =
    (let w1 = w\<lparr>header := (header w)(''Content-Type'' \<mapsto> ''application/json'')\<rparr>;
         w2 = WriteHeader w1 status
     in case Write wr w2 (encode p) of
          (w3, None) \<Rightarrow> (w3, [])
        | (w3, Some err) \<Rightarrow> (w3, [(''write json error: %v'', err)]))"

text \<open>\<^verbatim>\<open>GET /questions\<close>.\<close>

definition getQuestions :: "conn \<Rightarrow> server \<Rightarrow> ResponseWriter \<Rightarrow> server \<times> ResponseWriter" where
  "getQuestions wr srv w =
    (case writeJSON wr w StatusOK (PQuestions questions) of
       (w', lg) \<Rightarrow> (srv\<lparr>logs := logs srv @ lg\<rparr>, w'))"

text \<open>\<^verbatim>\<open>POST /answers\<close>, on the bytes of the request body. The result is \<^term>\<open>None\<close>
  when the handler does not return (\<^verbatim>\<open>save\<close> blocked on the mutex).\<close>

definition postAnswers ::
  "(string \<Rightarrow> error + AnswersRequest) \<Rightarrow> conn \<Rightarrow> server \<Rightarrow> ResponseWriter \<Rightarrow> string
     \<Rightarrow> (server \<times> ResponseWriter) option" where
  "postAnswers decode wr srv w reqBody =
    (case decode reqBody of
       Inl err \<Rightarrow> Some (srv, Error wr w ''invalid JSON payload'' StatusBadRequest)
     | Inr req \<Rightarrow>
        (case save (store srv) req of
           None \<Rightarrow> None
         | Some st \<Rightarrow>
            (case writeJSON wr w StatusOK (PStringMap [(''status'', ''ok'')]) of
               (w', lg) \<Rightarrow> Some (srv\<lparr>store := st, logs := logs srv @ lg\<rparr>, w'))))"

text \<open>The server takes one request after the other: the mux gives each to its handler
  with a new response writer. (Concurrent requests are the subject of the next
  section.)\<close>

datatype request = GetQuestions | PostAnswers string

definition handle ::
  "(string \<Rightarrow> error + AnswersRequest) \<Rightarrow> conn \<Rightarrow> server \<Rightarrow> request
     \<Rightarrow> (server \<times> ResponseWriter) option" where
  "handle decode wr srv rq =
    (case rq of
       GetQuestions \<Rightarrow> Some (getQuestions wr srv newResponseWriter)
     | PostAnswers reqBody \<Rightarrow> postAnswers decode wr srv newResponseWriter reqBody)"

fun handleAll ::
  "(string \<Rightarrow> error + AnswersRequest) \<Rightarrow> conn \<Rightarrow> server \<Rightarrow> request list \<Rightarrow> server option" where
  "handleAll decode wr srv [] = Some srv"
| "handleAll decode wr srv (rq # rqs) =
    (case handle decode wr srv rq of
       None \<Rightarrow> None
     | Some (srv', w) \<Rightarrow> handleAll decode wr srv' rqs)"

section \<open>Concurrent callers of \<open>save\<close>\<close>

text \<open>
  Each request runs on a goroutine of its own, so several calls of \<^verbatim>\<open>save\<close> may be
  under way at once. A caller is at one of the points of lines 38-41: before
  \<^verbatim>\<open>Lock\<close>; holding the mutex; having read \<^verbatim>\<open>s.answers\<close>; having assigned the
  appended slice; returned (the deferred \<^verbatim>\<open>Unlock\<close> done). A step of the system is a
  step of one caller; \<^verbatim>\<open>Lock\<close> can be taken only while the mutex is free. The read and
  the assignment of line 40 are separate steps, so nothing but the mutex keeps two
  callers from interleaving them.
\<close>

datatype pc = Start | Held | Loaded "AnswersRequest list" | Stored | Done

type_synonym caller = "pc \<times> AnswersRequest"

type_synonym config = "answerStore \<times> caller list"

inductive cstep :: "config \<Rightarrow> config \<Rightarrow> bool" where
  c_lock: "Lock s = Some s' \<Longrightarrow> cstep (s, ts @ (Start, r) # us) (s', ts @ (Held, r) # us)"
| c_load: "cstep (s, ts @ (Held, r) # us) (s, ts @ (Loaded (answers s), r) # us)"
| c_store: "cstep (s, ts @ (Loaded xs, r) # us) (s\<lparr>answers := xs @ [r]\<rparr>, ts @ (Stored, r) # us)"
| c_unlock: "cstep (s, ts @ (Stored, r) # us) (Unlock s, ts @ (Done, r) # us)"

definition callers :: "AnswersRequest list \<Rightarrow> caller list" where
  "callers reqs = map (Pair Start) reqs"

definition allDone :: "caller list \<Rightarrow> bool" where
  "allDone ts = list_all (\<lambda>t. fst t = Done) ts"

text \<open>The invariant of the system, for the proofs: the mutex is held exactly when one
  caller is between \<^verbatim>\<open>Lock\<close> and \<^verbatim>\<open>Unlock\<close>, and then by that caller only; the
  store holds the initial sequence and after it, in some order, the batches of the
  callers that have assigned; a caller that has read the sequence has read the present
  one; the callers' batches are those they were started with.\<close>

definition inCrit :: "caller \<Rightarrow> bool" where
  "inCrit t \<longleftrightarrow> fst t \<noteq> Start \<and> fst t \<noteq> Done"

definition hasStored :: "caller \<Rightarrow> bool" where
  "hasStored t \<longleftrightarrow> fst t = Stored \<or> fst t = Done"

definition saveInv :: "AnswersRequest list \<Rightarrow> AnswersRequest list \<Rightarrow> config \<Rightarrow> bool" where
  "saveInv xs0 reqs c =
    (case c of (s, ts) \<Rightarrow>
       map snd ts = reqs \<and>
       length (filter inCrit ts) = (if mu s then 1 else 0) \<and>
       (\<exists>ys. answers s = xs0 @ ys \<and> mset ys = mset (map snd (filter hasStored ts))) \<and>
       (\<forall>t \<in> set ts. \<forall>xs. fst t = Loaded xs \<longrightarrow> xs = answers s))"

section \<open>Properties of the store\<close>

lemma save_unlocked:
  "\<not> mu s \<Longrightarrow> save s req = Some (s\<lparr>answers := answers s @ [req]\<rparr>)"
  by (simp add: save_def Lock_def Unlock_def)

lemma save_Some_iff:
  "save s req = Some s' \<longleftrightarrow> \<not> mu s \<and> s' = s\<lparr>answers := answers s @ [req]\<rparr>"
  by (auto simp: save_def Lock_def Unlock_def)

lemma reachable_unlocked: "reachable s \<Longrightarrow> \<not> mu s"
  by (induction rule: reachable.induct) (auto simp: newStore_def save_Some_iff)


lemma postAnswers_store:
  assumes "postAnswers decode wr srv w reqBody = Some (srv', w')"
  shows "prefix (answers (store srv)) (answers (store srv'))"
  using assms
  by (auto simp: postAnswers_def save_Some_iff split: sum.splits option.splits prod.splits)

lemma getQuestions_store: "store (fst (getQuestions wr srv w)) = store srv"
  by (simp add: getQuestions_def split: prod.splits)

lemma handle_store:
  assumes "handle decode wr srv rq = Some (srv', w')"
  shows "prefix (answers (store srv)) (answers (store srv'))"
proof (cases rq)
  case GetQuestions
  with assms have "srv' = fst (getQuestions wr srv newResponseWriter)"
    by (auto simp: handle_def)
  then show ?thesis by (simp add: getQuestions_store)
next
  case (PostAnswers reqBody)
  with assms show ?thesis by (auto simp: handle_def dest: postAnswers_store)
qed

lemma handleAll_store:
  "handleAll decode wr srv rqs = Some srv' \<Longrightarrow> prefix (answers (store srv)) (answers (store srv'))"
proof (induction rqs arbitrary: srv)
  case Nil
  then show ?case by simp
next
  case (Cons rq rqs)
  from Cons.prems obtain srv1 w1 where h: "handle decode wr srv rq = Some (srv1, w1)"
    and r: "handleAll decode wr srv1 rqs = Some srv'"
    by (auto split: option.splits prod.splits)
  from handle_store[OF h] Cons.IH[OF r] show ?case
    by (rule prefix_order.trans)
qed

text \<open>
  C3. The store is append-only. A call of \<open>save\<close> that returns has put the batch at the
  end of the sequence: the new sequence is the old one with the batch after it, so the
  batch is its last element, it is one longer, and the old sequence is a strict prefix
  of it. Over any sequence of requests the server handles, the sequence stored at the
  start is a prefix of the sequence stored at the end: no entry is changed or removed,
  and the length does not decrease.
\<close>

theorem store_append_only:
  "(save s req = Some s' \<longrightarrow>
      answers s' = answers s @ [req] \<and> last (answers s') = req \<and>
      length (answers s') = Suc (length (answers s)) \<and>
      strict_prefix (answers s) (answers s')) \<and>
   (handleAll decode wr srv rqs = Some srv' \<longrightarrow>
      prefix (answers (store srv)) (answers (store srv')) \<and>
      length (answers (store srv)) \<le> length (answers (store srv')))"
proof (intro conjI impI)
  assume h: "handleAll decode wr srv rqs = Some srv'"
  show "prefix (answers (store srv)) (answers (store srv'))"
    by (rule handleAll_store[OF h])
  then show "length (answers (store srv)) \<le> length (answers (store srv'))"
    by (rule prefix_length_le)
qed (auto simp: save_Some_iff strict_prefix_def)

theorem store_append_only_witness:
  "save newStore \<lparr>Answers = [\<lparr>QuestionID = 1, Value = ''a''\<rparr>]\<rparr>
     = Some \<lparr>mu = False, answers = [\<lparr>Answers = [\<lparr>QuestionID = 1, Value = ''a''\<rparr>]\<rparr>]\<rparr> \<and>
   handleAll decodeRequest goodConn newServer [PostAnswers ''{}'', GetQuestions, PostAnswers ''null'']
     = Some \<lparr>store = \<lparr>mu = False, answers = [\<lparr>Answers = []\<rparr>, \<lparr>Answers = []\<rparr>]\<rparr>, logs = []\<rparr> \<and>
   strict_prefix (answers newStore) [\<lparr>Answers = [\<lparr>QuestionID = 1, Value = ''a''\<rparr>]\<rparr>] \<and>
   prefix (answers (store newServer)) [\<lparr>Answers = []\<rparr>, \<lparr>Answers = []\<rparr>]"
proof -
  have a: "save newStore \<lparr>Answers = [\<lparr>QuestionID = 1, Value = ''a''\<rparr>]\<rparr>
     = Some \<lparr>mu = False, answers = [\<lparr>Answers = [\<lparr>QuestionID = 1, Value = ''a''\<rparr>]\<rparr>]\<rparr>"
    by (simp add: save_def Lock_def Unlock_def newStore_def)
  have b: "handleAll decodeRequest goodConn newServer [PostAnswers ''{}'', GetQuestions, PostAnswers ''null'']
     = Some \<lparr>store = \<lparr>mu = False, answers = [\<lparr>Answers = []\<rparr>, \<lparr>Answers = []\<rparr>]\<rparr>, logs = []\<rparr>"
    by code_simp
  from store_append_only[of newStore "\<lparr>Answers = [\<lparr>QuestionID = 1, Value = ''a''\<rparr>]\<rparr>"
      "\<lparr>mu = False, answers = [\<lparr>Answers = [\<lparr>QuestionID = 1, Value = ''a''\<rparr>]\<rparr>]\<rparr>"
      decodeRequest goodConn newServer "[PostAnswers ''{}'', GetQuestions, PostAnswers ''null'']"
      "\<lparr>store = \<lparr>mu = False, answers = [\<lparr>Answers = []\<rparr>, \<lparr>Answers = []\<rparr>]\<rparr>, logs = []\<rparr>"]
    a b
  show ?thesis by simp
qed

text \<open>
  C7. \<open>save\<close> has no failure: on every store a sequential run can reach (the mutex is
  free there) it returns, for every batch, the empty one included, and the store then
  holds one batch more, the batch submitted being the last. The handler does not skip an
  empty batch either: a body that decodes to it adds one entry to the store.
\<close>

theorem save_never_fails:
  "reachable s \<Longrightarrow>
     (\<exists>s'. save s req = Some s' \<and> reachable s' \<and>
        length (answers s') = Suc (length (answers s)) \<and> last (answers s') = req) \<and>
     (\<exists>s'. save s \<lparr>Answers = []\<rparr> = Some s' \<and>
        answers s' = answers s @ [\<lparr>Answers = []\<rparr>]) \<and>
     (store srv = s \<and> decode reqBody = Inr \<lparr>Answers = []\<rparr> \<longrightarrow>
        (\<exists>srv' w'. postAnswers decode wr srv w reqBody = Some (srv', w') \<and>
           answers (store srv') = answers s @ [\<lparr>Answers = []\<rparr>]))"
proof -
  assume r: "reachable s"
  then have f: "\<not> mu s" by (rule reachable_unlocked)
  have 1: "save s req = Some (s\<lparr>answers := answers s @ [req]\<rparr>)"
    by (rule save_unlocked[OF f])
  have 2: "save s \<lparr>Answers = []\<rparr> = Some (s\<lparr>answers := answers s @ [\<lparr>Answers = []\<rparr>]\<rparr>)"
    by (rule save_unlocked[OF f])
  have 3: "store srv = s \<and> decode reqBody = Inr \<lparr>Answers = []\<rparr> \<longrightarrow>
        (\<exists>srv' w'. postAnswers decode wr srv w reqBody = Some (srv', w') \<and>
           answers (store srv') = answers s @ [\<lparr>Answers = []\<rparr>])"
    using 2 by (auto simp: postAnswers_def split: prod.splits)
  from reach_save[OF r 1] 1 2 3 show ?thesis by simp
qed

theorem save_never_fails_witness:
  \<open>reachable newStore \<and>
   (\<exists>s'. save newStore \<lparr>Answers = []\<rparr> = Some s' \<and> reachable s' \<and>
      length (answers s') = Suc (length (answers newStore)) \<and> last (answers s') = \<lparr>Answers = []\<rparr>) \<and>
   decodeRequest ''{"answers":[]}'' = Inr \<lparr>Answers = []\<rparr> \<and>
   (\<exists>srv' w'. postAnswers decodeRequest goodConn newServer newResponseWriter ''{"answers":[]}''
        = Some (srv', w') \<and>
      answers (store srv') = [\<lparr>Answers = []\<rparr>])\<close>
proof -
  have d: \<open>decodeRequest ''{"answers":[]}'' = Inr \<lparr>Answers = []\<rparr>\<close> by code_simp
  have s: "store newServer = newStore" by (simp add: newServer_def)
  have a: "answers newStore = []" by (simp add: newStore_def)
  from save_never_fails[OF reach_new, of "\<lparr>Answers = []\<rparr>" newServer decodeRequest
      \<open>''{"answers":[]}''\<close> goodConn newResponseWriter] d s a reach_new
  show ?thesis by simp
qed

section \<open>Properties of the handlers\<close>

lemma encode_status_ok:
  \<open>encode (PStringMap [(''status'', ''ok'')]) = ''{"status":"ok"}'' @ [CHR 0x0A]\<close>
  by code_simp

lemma writeJSON_eq:
  "writeJSON wr w st p =
    (w\<lparr>header := (header w)(''Content-Type'' \<mapsto> ''application/json''),
       code := (if code w = None then Some st else code w),
       body := body w @ take (fst (wr (encode p))) (encode p)\<rparr>,
     case snd (wr (encode p)) of None \<Rightarrow> [] | Some e \<Rightarrow> [(''write json error: %v'', e)])"
  by (simp add: writeJSON_def Write_def WriteHeader_def Let_def StatusOK_def split: prod.splits option.splits)

lemma Error_eq:
  "Error wr w msg st =
    w\<lparr>header := (header w)(''Content-Type'' \<mapsto> ''text/plain; charset=utf-8'',
                            ''X-Content-Type-Options'' \<mapsto> ''nosniff''),
      code := (if code w = None then Some st else code w),
      body := body w @ take (fst (wr (msg @ [CHR 0x0A]))) (msg @ [CHR 0x0A])\<rparr>"
  by (simp add: Error_def Write_def WriteHeader_def Let_def StatusOK_def split: prod.splits option.splits)


text \<open>
  C1. When the body of a \<^verbatim>\<open>POST /answers\<close> request decodes into a batch, the handler
  calls \<open>save\<close> once with that batch: the store afterwards is the store before with the
  decoded batch, its answers in order, as one new last element, and nothing else of the
  server changes. It then replies with status 200, content type
  \<^verbatim>\<open>application/json\<close> and the body \<^verbatim>\<open>{"status":"ok"}\<close> (when the connection takes the
  write; the mutex is free, as it is between calls, and the status has not been written
  before).
\<close>

theorem post_success:
  assumes "decode reqBody = Inr req" and "\<not> mu (store srv)" and "code w = None"
    and \<open>wr (''{"status":"ok"}'' @ [CHR 0x0A]) = (length (''{"status":"ok"}'' @ [CHR 0x0A]), None)\<close>
  shows \<open>postAnswers decode wr srv w reqBody =
     Some (srv\<lparr>store := (store srv)\<lparr>answers := answers (store srv) @ [req]\<rparr>\<rparr>,
           w\<lparr>header := (header w)(''Content-Type'' \<mapsto> ''application/json''),
             code := Some 200,
             body := body w @ ''{"status":"ok"}'' @ [CHR 0x0A]\<rparr>)\<close>
  using assms
  by (simp add: postAnswers_def save_unlocked writeJSON_eq encode_status_ok StatusOK_def)

theorem post_success_witness:
  \<open>decodeRequest ''{"answers":[{"questionId":1,"value":"Ivan"},{"questionId":2,"value":"30"}]}''
      = Inr \<lparr>Answers = [\<lparr>QuestionID = 1, Value = ''Ivan''\<rparr>, \<lparr>QuestionID = 2, Value = ''30''\<rparr>]\<rparr> \<and>
    postAnswers decodeRequest goodConn newServer newResponseWriter
        ''{"answers":[{"questionId":1,"value":"Ivan"},{"questionId":2,"value":"30"}]}''
      = Some (\<lparr>store = \<lparr>mu = False, answers =
                    [\<lparr>Answers = [\<lparr>QuestionID = 1, Value = ''Ivan''\<rparr>, \<lparr>QuestionID = 2, Value = ''30''\<rparr>]\<rparr>]\<rparr>,
               logs = []\<rparr>,
              \<lparr>header = [''Content-Type'' \<mapsto> ''application/json''], code = Some 200,
               body = ''{"status":"ok"}'' @ [CHR 0x0A]\<rparr>)\<close>
proof -
  have d: \<open>decodeRequest ''{"answers":[{"questionId":1,"value":"Ivan"},{"questionId":2,"value":"30"}]}''
      = Inr \<lparr>Answers = [\<lparr>QuestionID = 1, Value = ''Ivan''\<rparr>, \<lparr>QuestionID = 2, Value = ''30''\<rparr>]\<rparr>\<close>
    by code_simp
  have m: "\<not> mu (store newServer)" by (simp add: newServer_def newStore_def)
  have c: "code newResponseWriter = None" by (simp add: newResponseWriter_def)
  have g: \<open>goodConn (''{"status":"ok"}'' @ [CHR 0x0A]) = (length (''{"status":"ok"}'' @ [CHR 0x0A]), None)\<close>
    by (simp add: goodConn_def)
  from post_success[of decodeRequest _ _ newServer newResponseWriter goodConn, OF d m c g] d show ?thesis
    by (simp add: newServer_def newStore_def newResponseWriter_def)
qed


text \<open>
  C2. When the body does not decode, whatever the error, the server is left as it was
  (the store, hence its length, included: \<open>save\<close> is not called) and the reply is
  status 400 with a plain-text message, not the JSON acknowledgement. With the model of
  the decoder, the bodies \<^verbatim>\<open>not-json\<close> (malformed) and \<^verbatim>\<open>{"answers":"none"}\<close> (wrong
  shape) are such bodies.
\<close>

theorem post_decode_failure:
  assumes "decode reqBody = Inl e" and "code w = None"
  shows \<open>\<exists>w'. postAnswers decode wr srv w reqBody = Some (srv, w') \<and>
     code w' = Some 400 \<and>
     header w' ''Content-Type'' = Some ''text/plain; charset=utf-8'' \<and>
     body w' = body w @ take (fst (wr (''invalid JSON payload'' @ [CHR 0x0A])))
                              (''invalid JSON payload'' @ [CHR 0x0A]) \<and>
     body w' \<noteq> body w @ ''{"status":"ok"}'' @ [CHR 0x0A]\<close>
  using assms
  by (auto simp: postAnswers_def Error_eq StatusBadRequest_def take_Cons')


theorem post_decode_failure_witness:
  \<open>decodeRequest ''not-json'' = Inl SyntaxError \<and>
    decodeRequest ''{"answers":"none"}'' = Inl UnmarshalTypeError \<and>
    postAnswers decodeRequest goodConn newServer newResponseWriter ''not-json''
      = Some (newServer,
              \<lparr>header = [''Content-Type'' \<mapsto> ''text/plain; charset=utf-8'',
                         ''X-Content-Type-Options'' \<mapsto> ''nosniff''],
               code = Some 400, body = ''invalid JSON payload'' @ [CHR 0x0A]\<rparr>) \<and>
    length (answers (store newServer)) = 0\<close>
proof -
  have d: "decodeRequest ''not-json'' = Inl SyntaxError" by code_simp
  have d2: \<open>decodeRequest ''{"answers":"none"}'' = Inl UnmarshalTypeError\<close> by code_simp
  have c: "code newResponseWriter = None" by (simp add: newResponseWriter_def)
  from post_decode_failure[of decodeRequest "''not-json''" SyntaxError newResponseWriter goodConn newServer, OF d c]
  obtain w' where p: "postAnswers decodeRequest goodConn newServer newResponseWriter ''not-json'' = Some (newServer, w')"
    by blast
  have e: "postAnswers decodeRequest goodConn newServer newResponseWriter ''not-json''
      = Some (newServer,
              \<lparr>header = [''Content-Type'' \<mapsto> ''text/plain; charset=utf-8'',
                         ''X-Content-Type-Options'' \<mapsto> ''nosniff''],
               code = Some 400, body = ''invalid JSON payload'' @ [CHR 0x0A]\<rparr>)"
    using p d by (simp add: postAnswers_def Error_eq newResponseWriter_def goodConn_def StatusBadRequest_def)
  show ?thesis using d d2 e by (simp add: newServer_def newStore_def)
qed


text \<open>
  C8. A decoded batch with an answer whose \<^verbatim>\<open>questionId\<close> is the \<^verbatim>\<open>ID\<close> of no question
  of the catalog is accepted like any other decoded batch: it is stored as it is, as the
  new last element, and the reply is the success acknowledgement, status 200, content
  type \<^verbatim>\<open>application/json\<close> and body \<^verbatim>\<open>{"status":"ok"}\<close> (when the connection takes the
  write), the same reply, and the same log, as for a batch of known ids. The handler
  never looks at the catalog.
\<close>

theorem unknown_question_id_accepted:
  assumes "decode reqBody = Inr req"
    and "\<exists>a \<in> set (Answers req). QuestionID a \<notin> set (map ID questions)"
    and "decode reqBody' = Inr req'" and "\<not> mu (store srv)"
  shows \<open>(\<exists>srv1 srv2 w'.
           postAnswers decode wr srv w reqBody = Some (srv1, w') \<and>
           postAnswers decode wr srv w reqBody' = Some (srv2, w') \<and>
           answers (store srv1) = answers (store srv) @ [req] \<and>
           logs srv1 = logs srv2) \<and>
         (code w = None \<and>
          wr (''{"status":"ok"}'' @ [CHR 0x0A]) = (length (''{"status":"ok"}'' @ [CHR 0x0A]), None) \<longrightarrow>
            postAnswers decode wr srv w reqBody =
              Some (srv\<lparr>store := (store srv)\<lparr>answers := answers (store srv) @ [req]\<rparr>\<rparr>,
                    w\<lparr>header := (header w)(''Content-Type'' \<mapsto> ''application/json''),
                      code := Some 200,
                      body := body w @ ''{"status":"ok"}'' @ [CHR 0x0A]\<rparr>) \<and>
            postAnswers decode wr srv w reqBody' =
              Some (srv\<lparr>store := (store srv)\<lparr>answers := answers (store srv) @ [req']\<rparr>\<rparr>,
                    w\<lparr>header := (header w)(''Content-Type'' \<mapsto> ''application/json''),
                      code := Some 200,
                      body := body w @ ''{"status":"ok"}'' @ [CHR 0x0A]\<rparr>))\<close>
  using assms
  by (simp add: postAnswers_def save_unlocked writeJSON_eq encode_status_ok StatusOK_def)

theorem unknown_question_id_accepted_witness:
  \<open>decodeRequest ''{"answers":[{"questionId":99,"value":"x"}]}'' = Inr \<lparr>Answers = [\<lparr>QuestionID = 99, Value = ''x''\<rparr>]\<rparr> \<and>
    decodeRequest ''{"answers":[{"questionId":1,"value":"x"}]}'' = Inr \<lparr>Answers = [\<lparr>QuestionID = 1, Value = ''x''\<rparr>]\<rparr> \<and>
    99 \<notin> set (map ID questions) \<and> 1 \<in> set (map ID questions) \<and>
    postAnswers decodeRequest goodConn newServer newResponseWriter ''{"answers":[{"questionId":99,"value":"x"}]}''
      = Some (\<lparr>store = \<lparr>mu = False, answers = [\<lparr>Answers = [\<lparr>QuestionID = 99, Value = ''x''\<rparr>]\<rparr>]\<rparr>, logs = []\<rparr>,
              \<lparr>header = [''Content-Type'' \<mapsto> ''application/json''], code = Some 200,
               body = ''{"status":"ok"}'' @ [CHR 0x0A]\<rparr>) \<and>
    postAnswers decodeRequest goodConn newServer newResponseWriter ''{"answers":[{"questionId":1,"value":"x"}]}''
      = Some (\<lparr>store = \<lparr>mu = False, answers = [\<lparr>Answers = [\<lparr>QuestionID = 1, Value = ''x''\<rparr>]\<rparr>]\<rparr>, logs = []\<rparr>,
              \<lparr>header = [''Content-Type'' \<mapsto> ''application/json''], code = Some 200,
               body = ''{"status":"ok"}'' @ [CHR 0x0A]\<rparr>)\<close>
proof -
  have d1: \<open>decodeRequest ''{"answers":[{"questionId":99,"value":"x"}]}'' = Inr \<lparr>Answers = [\<lparr>QuestionID = 99, Value = ''x''\<rparr>]\<rparr>\<close>
    by code_simp
  have d2: \<open>decodeRequest ''{"answers":[{"questionId":1,"value":"x"}]}'' = Inr \<lparr>Answers = [\<lparr>QuestionID = 1, Value = ''x''\<rparr>]\<rparr>\<close>
    by code_simp
  have m: "\<not> mu (store newServer)" by (simp add: newServer_def newStore_def)
  have q: "map ID questions = [1, 2, 3, 4]" by (simp add: questions_def)
  have u: "\<exists>a \<in> set (Answers \<lparr>Answers = [\<lparr>QuestionID = 99, Value = ''x''\<rparr>]\<rparr>). QuestionID a \<notin> set (map ID questions)"
    by (simp add: q)
  have c: "code newResponseWriter = None" by (simp add: newResponseWriter_def)
  have g: \<open>goodConn (''{"status":"ok"}'' @ [CHR 0x0A]) = (length (''{"status":"ok"}'' @ [CHR 0x0A]), None)\<close>
    by (simp add: goodConn_def)
  from unknown_question_id_accepted[of decodeRequest _ _ _ _ newServer goodConn newResponseWriter, OF d1 u d2 m]
    c g d1 d2 q
  show ?thesis by (simp add: newServer_def newStore_def newResponseWriter_def)
qed

text \<open>
  C9. When the write of the success reply fails, the error is written to the log and
  nothing else happens: the store is the one \<open>save\<close> returned, with the batch appended,
  the same store as when the write succeeds, and the status stays 200. \<open>save\<close> has
  returned before the reply is encoded.
\<close>

theorem encode_failure_keeps_store:
  assumes "decode reqBody = Inr req" and "save (store srv) req = Some st"
    and "snd (wr (encode (PStringMap [(''status'', ''ok'')]))) = Some err"
  shows "\<exists>w'. postAnswers decode wr srv w reqBody
            = Some (srv\<lparr>store := st, logs := logs srv @ [(''write json error: %v'', err)]\<rparr>, w') \<and>
          st = (store srv)\<lparr>answers := answers (store srv) @ [req]\<rparr> \<and>
          map_option (store \<circ> fst) (postAnswers decode goodConn srv w reqBody) = Some st \<and>
          (code w = None \<longrightarrow> code w' = Some 200)"
proof -
  from assms(2) have f: "\<not> mu (store srv)"
    and s: "st = (store srv)\<lparr>answers := answers (store srv) @ [req]\<rparr>"
    by (simp_all add: save_Some_iff)
  show ?thesis using assms(1,3) f s
    by (simp add: postAnswers_def save_unlocked writeJSON_eq StatusOK_def)
qed

theorem encode_failure_keeps_store_witness:
  \<open>decodeRequest ''{"answers":[{"questionId":3,"value":"Go"}]}'' = Inr \<lparr>Answers = [\<lparr>QuestionID = 3, Value = ''Go''\<rparr>]\<rparr> \<and>
    postAnswers decodeRequest brokenConn newServer newResponseWriter ''{"answers":[{"questionId":3,"value":"Go"}]}''
      = Some (\<lparr>store = \<lparr>mu = False, answers = [\<lparr>Answers = [\<lparr>QuestionID = 3, Value = ''Go''\<rparr>]\<rparr>]\<rparr>,
               logs = [(''write json error: %v'', IOError ''broken pipe'')]\<rparr>,
              \<lparr>header = [''Content-Type'' \<mapsto> ''application/json''], code = Some 200, body = []\<rparr>)\<close>
proof -
  have d: \<open>decodeRequest ''{"answers":[{"questionId":3,"value":"Go"}]}'' = Inr \<lparr>Answers = [\<lparr>QuestionID = 3, Value = ''Go''\<rparr>]\<rparr>\<close>
    by code_simp
  have s: "save (store newServer) \<lparr>Answers = [\<lparr>QuestionID = 3, Value = ''Go''\<rparr>]\<rparr>
      = Some \<lparr>mu = False, answers = [\<lparr>Answers = [\<lparr>QuestionID = 3, Value = ''Go''\<rparr>]\<rparr>]\<rparr>"
    by (simp add: save_def Lock_def Unlock_def newServer_def newStore_def)
  have b: "snd (brokenConn (encode (PStringMap [(''status'', ''ok'')]))) = Some (IOError ''broken pipe'')"
    by (simp add: brokenConn_def)
  from encode_failure_keeps_store[of decodeRequest _ _ newServer _ brokenConn _ newResponseWriter, OF d s b]
  obtain w' where p: \<open>postAnswers decodeRequest brokenConn newServer newResponseWriter ''{"answers":[{"questionId":3,"value":"Go"}]}''
      = Some (newServer\<lparr>store := \<lparr>mu = False, answers = [\<lparr>Answers = [\<lparr>QuestionID = 3, Value = ''Go''\<rparr>]\<rparr>]\<rparr>,
                logs := logs newServer @ [(''write json error: %v'', IOError ''broken pipe'')]\<rparr>, w')\<close>
    by blast
  then have "w' = \<lparr>header = [''Content-Type'' \<mapsto> ''application/json''], code = Some 200, body = []\<rparr>"
    using d s by (simp add: postAnswers_def writeJSON_eq brokenConn_def newResponseWriter_def StatusOK_def)
  with p d show ?thesis by (simp add: newServer_def)
qed

lemma encode_questions:
  \<open>encode (PQuestions questions) =
     ''[{"id":1,"text":"'' @ Text (questions ! 0) @ ''","type":"text"},'' @
     ''{"id":2,"text":"'' @ Text (questions ! 1) @ ''","type":"number"},'' @
     ''{"id":3,"text":"'' @ Text (questions ! 2) @ ''","type":"text"},'' @
     ''{"id":4,"text":"'' @ Text (questions ! 3) @ ''","type":"text"}]'' @ [CHR 0x0A]\<close>
  by code_simp

lemma readValue_questions:
  "readValue (encode (PQuestions questions)) = Inr (marshal (PQuestions questions))"
  by code_simp

lemma getQuestions_eq:
  "getQuestions wr srv w =
     (srv\<lparr>logs := logs srv @ snd (writeJSON wr w StatusOK (PQuestions questions))\<rparr>,
      fst (writeJSON wr w StatusOK (PQuestions questions)))"
  by (simp add: getQuestions_def split: prod.splits)

text \<open>
  C5. The reply of \<^verbatim>\<open>GET /questions\<close> does not depend on the server's state: it is the
  same for any two states, so also before and after any requests handled in between,
  and the handler leaves the store as it is. On a connection that takes the write the
  reply is status 200 with the encoding of \<open>questions\<close>, whose order is the order of
  definition; there is no other outcome.
\<close>

theorem list_questions_fixed:
  "snd (getQuestions wr srv w) = snd (getQuestions wr srv' w) \<and>
   store (fst (getQuestions wr srv w)) = store srv \<and>
   (handleAll decode wr' srv rqs = Some srv' \<longrightarrow>
      snd (getQuestions wr srv' w) = snd (getQuestions wr srv w)) \<and>
   code (snd (getQuestions wr srv newResponseWriter)) = Some 200 \<and>
   getQuestions goodConn srv newResponseWriter =
     (srv, \<lparr>header = [''Content-Type'' \<mapsto> ''application/json''], code = Some 200,
            body = encode (PQuestions questions)\<rparr>) \<and>
   map ID questions = [1, 2, 3, 4]"
  by (simp add: getQuestions_eq writeJSON_eq goodConn_def newResponseWriter_def StatusOK_def questions_def)

theorem list_questions_fixed_witness:
  \<open>handleAll decodeRequest goodConn newServer [GetQuestions, PostAnswers ''{"answers":[]}'']
     = Some \<lparr>store = \<lparr>mu = False, answers = [\<lparr>Answers = []\<rparr>]\<rparr>, logs = []\<rparr> \<and>
    snd (getQuestions goodConn \<lparr>store = \<lparr>mu = False, answers = [\<lparr>Answers = []\<rparr>]\<rparr>, logs = []\<rparr> newResponseWriter)
     = snd (getQuestions goodConn newServer newResponseWriter)\<close>
proof -
  have h: \<open>handleAll decodeRequest goodConn newServer [GetQuestions, PostAnswers ''{"answers":[]}'']
     = Some \<lparr>store = \<lparr>mu = False, answers = [\<lparr>Answers = []\<rparr>]\<rparr>, logs = []\<rparr>\<close>
    by code_simp
  from list_questions_fixed[of goodConn newServer newResponseWriter
      "\<lparr>store = \<lparr>mu = False, answers = [\<lparr>Answers = []\<rparr>]\<rparr>, logs = []\<rparr>" decodeRequest goodConn
      \<open>[GetQuestions, PostAnswers ''{"answers":[]}'']\<close>] h
  show ?thesis by simp
qed

text \<open>
  C6. The reply of \<^verbatim>\<open>GET /questions\<close> is a JSON array of four objects with the members
  \<^verbatim>\<open>id\<close>, \<^verbatim>\<open>text\<close> and \<^verbatim>\<open>type\<close> in this order; the ids are 1 to 4, positive and
  distinct, each type is \<^verbatim>\<open>text\<close> or \<^verbatim>\<open>number\<close>, and the first entry has id 1, the text
  ``Kak vas zovut?'' (in Cyrillic, UTF-8) and type \<^verbatim>\<open>text\<close>. Read back by the scanner, the
  bytes of the reply are this array.
\<close>

theorem catalog_reply:
  \<open>snd (getQuestions goodConn srv newResponseWriter) =
     \<lparr>header = [''Content-Type'' \<mapsto> ''application/json''], code = Some 200,
      body = ''[{"id":1,"text":"'' @ Text (questions ! 0) @ ''","type":"text"},'' @
             ''{"id":2,"text":"'' @ Text (questions ! 1) @ ''","type":"number"},'' @
             ''{"id":3,"text":"'' @ Text (questions ! 2) @ ''","type":"text"},'' @
             ''{"id":4,"text":"'' @ Text (questions ! 3) @ ''","type":"text"}]'' @ [CHR 0x0A]\<rparr> \<and>
    length questions = 4 \<and>
    map ID questions = [1, 2, 3, 4] \<and> distinct (map ID questions) \<and>
    list_all (\<lambda>q. 0 < ID q) questions \<and>
    map Type questions = [''text'', ''number'', ''text'', ''text''] \<and>
    questions ! 0 = \<lparr>ID = 1,
      Text = [CHR 0xD0, CHR 0x9A, CHR 0xD0, CHR 0xB0, CHR 0xD0, CHR 0xBA, CHR '' '',
              CHR 0xD0, CHR 0xB2, CHR 0xD0, CHR 0xB0, CHR 0xD1, CHR 0x81, CHR '' '',
              CHR 0xD0, CHR 0xB7, CHR 0xD0, CHR 0xBE, CHR 0xD0, CHR 0xB2, CHR 0xD1, CHR 0x83,
              CHR 0xD1, CHR 0x82, CHR ''?''],
      Type = ''text''\<rparr> \<and>
    marshal (PQuestions questions) =
      JArray (map (\<lambda>q. JObject [(''id'', JNumber (showInt (ID q))), (''text'', JString (Text q)),
                                (''type'', JString (Type q))]) questions) \<and>
    readValue (body (snd (getQuestions goodConn srv newResponseWriter)))
      = Inr (marshal (PQuestions questions))\<close>
proof -
  have 1: "snd (getQuestions goodConn srv newResponseWriter) =
     \<lparr>header = [''Content-Type'' \<mapsto> ''application/json''], code = Some 200,
      body = encode (PQuestions questions)\<rparr>"
    by (simp add: getQuestions_eq writeJSON_eq goodConn_def newResponseWriter_def StatusOK_def)
  have 2: "length questions = 4 \<and> map ID questions = [1, 2, 3, 4] \<and> distinct (map ID questions) \<and>
    list_all (\<lambda>q. 0 < ID q) questions \<and>
    map Type questions = [''text'', ''number'', ''text'', ''text'']"
    by (simp add: questions_def)
  have 3: "questions ! 0 = \<lparr>ID = 1,
      Text = [CHR 0xD0, CHR 0x9A, CHR 0xD0, CHR 0xB0, CHR 0xD0, CHR 0xBA, CHR '' '',
              CHR 0xD0, CHR 0xB2, CHR 0xD0, CHR 0xB0, CHR 0xD1, CHR 0x81, CHR '' '',
              CHR 0xD0, CHR 0xB7, CHR 0xD0, CHR 0xBE, CHR 0xD0, CHR 0xB2, CHR 0xD1, CHR 0x83,
              CHR 0xD1, CHR 0x82, CHR ''?''],
      Type = ''text''\<rparr>"
    by (simp add: questions_def)
  have 4: "marshal (PQuestions questions) =
      JArray (map (\<lambda>q. JObject [(''id'', JNumber (showInt (ID q))), (''text'', JString (Text q)),
                                (''type'', JString (Type q))]) questions)"
    by (simp add: marshalQuestion_def)
  have 5: "readValue (body (snd (getQuestions goodConn srv newResponseWriter)))
      = Inr (marshal (PQuestions questions))"
    unfolding 1 using readValue_questions by simp
  show ?thesis
    unfolding 1 encode_questions using 2 3 4 5[unfolded 1 encode_questions] by simp
qed



section \<open>The decoder and the shape of the body\<close>

text \<open>Each storing function reports a type error exactly when the value does not have
  the shape described for its field.\<close>

lemma storeInt_ok: "snd (storeInt v old) = intShape v"
  by (simp add: storeInt_def intShape_def split: json.splits option.splits)

lemma storeString_ok: "snd (storeString v old) = stringShape v"
  by (simp add: storeString_def stringShape_def split: json.splits)

lemma answerField_ok: "snd (answerField (a, ok) kv) = (ok \<and> answerMemberShape kv)"
  using storeInt_ok[of "snd kv" "QuestionID a"] storeString_ok[of "snd kv" "Value a"]
  by (cases kv) (auto simp: answerField_def answerMemberShape_def split: prod.splits)

lemma foldl_answerField_ok:
  "snd (foldl answerField (a, ok) ms) = (ok \<and> list_all answerMemberShape ms)"
proof (induction ms arbitrary: a ok)
  case Nil
  then show ?case by simp
next
  case (Cons kv ms)
  obtain a' ok' where s: "answerField (a, ok) kv = (a', ok')" by (cases "answerField (a, ok) kv")
  with answerField_ok[of a ok kv] have "ok' = (ok \<and> answerMemberShape kv)" by simp
  with Cons.IH[of a' ok'] s show ?case by auto
qed

lemma storeAnswer_ok: "snd (storeAnswer j old) = answerShape j"
  by (simp add: storeAnswer_def answerShape_def foldl_answerField_ok split: json.splits)

lemma storeElems_ok:
  "snd (storeElems es i bk ok) = (ok \<and> list_all answerShape es)"
proof (induction es arbitrary: i bk ok)
  case Nil
  then show ?case by simp
next
  case (Cons e es)
  show ?case
    using storeAnswer_ok[of e "bk ! i"] storeAnswer_ok[of e zeroAnswer]
    by (auto simp: Cons.IH split: prod.splits)
qed

lemma storeSlice_ok: "snd (storeSlice j sl) = answersShape j"
proof (cases j)
  case (JArray es)
  obtain bk ok where f: "storeElems es 0 (fst sl) True = (bk, ok)" by (metis surj_pair)
  with storeElems_ok[of es 0 "fst sl" True] have "ok = list_all answerShape es" by simp
  with f JArray show ?thesis by (simp add: storeSlice_def answersShape_def)
qed (simp_all add: storeSlice_def answersShape_def)

lemma requestField_ok: "snd (requestField (sl, ok) kv) = (ok \<and> requestMemberShape kv)"
  using storeSlice_ok[of "snd kv" sl]
  by (cases kv) (auto simp: requestField_def requestMemberShape_def split: prod.splits)

lemma foldl_requestField_ok:
  "snd (foldl requestField (sl, ok) ms) = (ok \<and> list_all requestMemberShape ms)"
proof (induction ms arbitrary: sl ok)
  case Nil
  then show ?case by simp
next
  case (Cons kv ms)
  obtain sl' ok' where s: "requestField (sl, ok) kv = (sl', ok')" by (cases "requestField (sl, ok) kv")
  with requestField_ok[of sl ok kv] have "ok' = (ok \<and> requestMemberShape kv)" by simp
  with Cons.IH[of sl' ok'] s show ?case by auto
qed

lemma unmarshal_cases:
  "(requestShape j \<longrightarrow> (\<exists>req. unmarshal j = Inr req)) \<and>
   (\<not> requestShape j \<longrightarrow> unmarshal j = Inl UnmarshalTypeError)"
proof (cases j)
  case (JObject ms)
  obtain bk n ok where f: "foldl requestField (([], 0), True) ms = ((bk, n), ok)"
    by (metis surj_pair)
  with foldl_requestField_ok[of "([], 0)" True ms] have "ok = list_all requestMemberShape ms" by simp
  with f JObject show ?thesis by (simp add: unmarshal_def requestShape_def)
qed (simp_all add: unmarshal_def requestShape_def)

lemma foldl_requestField_other:
  "list_all (\<lambda>kv. \<not> fieldMatch ''answers'' (fst kv)) ms \<Longrightarrow> foldl requestField st ms = st"
  by (induction ms arbitrary: st) (auto simp: requestField_def split: prod.splits)

lemma unmarshal_no_answers:
  "list_all (\<lambda>kv. \<not> fieldMatch ''answers'' (fst kv)) ms \<Longrightarrow> unmarshal (JObject ms) = Inr \<lparr>Answers = []\<rparr>"
  by (simp add: unmarshal_def foldl_requestField_other)

lemma unmarshal_null: "unmarshal JNull = Inr \<lparr>Answers = []\<rparr>"
  by (simp add: unmarshal_def)


lemma decodeRequest_cases:
  "(\<forall>e. readValue reqBody = Inl e \<longrightarrow> decodeRequest reqBody = Inl e) \<and>
   (\<forall>j. readValue reqBody = Inr j \<and> requestShape j \<longrightarrow> (\<exists>req. unmarshal j = Inr req \<and> decodeRequest reqBody = Inr req)) \<and>
   (\<forall>j. readValue reqBody = Inr j \<and> \<not> requestShape j \<longrightarrow> decodeRequest reqBody = Inl UnmarshalTypeError)"
  using unmarshal_cases by (auto simp: decodeRequest_def)

lemma postAnswers_error_branch:
  "postAnswers decode wr srv w reqBody = Some (srv, Error wr w ''invalid JSON payload'' StatusBadRequest)
     \<longleftrightarrow> (\<exists>e. decode reqBody = Inl e)"
proof (cases "decode reqBody")
  case (Inl e)
  then show ?thesis by (simp add: postAnswers_def)
next
  case (Inr req)
  have "srv' \<noteq> srv" if "store srv' = (store srv)\<lparr>answers := answers (store srv) @ [req]\<rparr>" for srv'
  proof
    assume "srv' = srv"
    with that have "answers (store srv) = answers ((store srv)\<lparr>answers := answers (store srv) @ [req]\<rparr>)"
      by simp
    then show False by simp
  qed
  then have "postAnswers decode wr srv w reqBody \<noteq> Some (srv, w')" for w'
    using Inr by (auto simp: postAnswers_def save_Some_iff split: option.splits prod.splits)
  with Inr show ?thesis by simp
qed

text \<open>
  C10. A body whose first JSON value fits the request struct is accepted even when it is
  not of the documented form: the decoded batch is appended as one new element and the
  reply is \<^verbatim>\<open>{"status":"ok"}\<close>. In particular \<^verbatim>\<open>null\<close> and every object without a member
  naming the field \<^verbatim>\<open>answers\<close>, such as \<^verbatim>\<open>{}\<close> or an object of other members only, fit
  and decode to the empty (nil) batch. The handler takes the error branch exactly when
  the scanner rejects the body or the value read has a member of the wrong type.
\<close>

theorem lenient_bodies_accepted:
  \<open>(readValue reqBody = Inr j \<and> requestShape j \<and> \<not> mu (store srv) \<and> code w = None \<and>
      wr (''{"status":"ok"}'' @ [CHR 0x0A]) = (length (''{"status":"ok"}'' @ [CHR 0x0A]), None) \<longrightarrow>
      (\<exists>req. unmarshal j = Inr req \<and>
         postAnswers decodeRequest wr srv w reqBody =
           Some (srv\<lparr>store := (store srv)\<lparr>answers := answers (store srv) @ [req]\<rparr>\<rparr>,
                 w\<lparr>header := (header w)(''Content-Type'' \<mapsto> ''application/json''),
                   code := Some 200,
                   body := body w @ ''{"status":"ok"}'' @ [CHR 0x0A]\<rparr>))) \<and>
    (j = JNull \<or> (\<exists>ms. j = JObject ms \<and> list_all (\<lambda>kv. \<not> fieldMatch ''answers'' (fst kv)) ms) \<longrightarrow>
      requestShape j \<and> unmarshal j = Inr \<lparr>Answers = []\<rparr>) \<and>
    readValue ''{}'' = Inr (JObject []) \<and>
    readValue ''null'' = Inr JNull \<and>
    readValue ''{"name":"x","id":[1,{}]}''
      = Inr (JObject [(''name'', JString ''x''), (''id'', JArray [JNumber ''1'', JObject []])]) \<and>
    (postAnswers decodeRequest wr srv w reqBody
        = Some (srv, Error wr w ''invalid JSON payload'' StatusBadRequest) \<longleftrightarrow>
      (\<exists>e. readValue reqBody = Inl e) \<or> (\<exists>j. readValue reqBody = Inr j \<and> \<not> requestShape j))\<close>
proof (intro conjI impI)
  assume a: \<open>readValue reqBody = Inr j \<and> requestShape j \<and> \<not> mu (store srv) \<and> code w = None \<and>
      wr (''{"status":"ok"}'' @ [CHR 0x0A]) = (length (''{"status":"ok"}'' @ [CHR 0x0A]), None)\<close>
  with decodeRequest_cases[of reqBody] obtain req where
    r: "unmarshal j = Inr req" "decodeRequest reqBody = Inr req" by blast
  with a show \<open>\<exists>req. unmarshal j = Inr req \<and>
         postAnswers decodeRequest wr srv w reqBody =
           Some (srv\<lparr>store := (store srv)\<lparr>answers := answers (store srv) @ [req]\<rparr>\<rparr>,
                 w\<lparr>header := (header w)(''Content-Type'' \<mapsto> ''application/json''),
                   code := Some 200,
                   body := body w @ ''{"status":"ok"}'' @ [CHR 0x0A]\<rparr>)\<close>
    by (simp add: postAnswers_def save_unlocked writeJSON_eq encode_status_ok StatusOK_def)
next
  assume b: "j = JNull \<or> (\<exists>ms. j = JObject ms \<and> list_all (\<lambda>kv. \<not> fieldMatch ''answers'' (fst kv)) ms)"
  then show "requestShape j"
    by (auto simp: requestShape_def requestMemberShape_def list_all_iff)
  from b show "unmarshal j = Inr \<lparr>Answers = []\<rparr>"
    using unmarshal_null unmarshal_no_answers by blast
next
  show "readValue ''{}'' = Inr (JObject [])" by code_simp
  show "readValue ''null'' = Inr JNull" by code_simp
  show \<open>readValue ''{"name":"x","id":[1,{}]}''
      = Inr (JObject [(''name'', JString ''x''), (''id'', JArray [JNumber ''1'', JObject []])])\<close>
    by code_simp
next
  show "postAnswers decodeRequest wr srv w reqBody
        = Some (srv, Error wr w ''invalid JSON payload'' StatusBadRequest) \<longleftrightarrow>
      (\<exists>e. readValue reqBody = Inl e) \<or> (\<exists>j. readValue reqBody = Inr j \<and> \<not> requestShape j)"
    unfolding postAnswers_error_branch
  proof (cases "readValue reqBody")
    case (Inl e)
    then show "(\<exists>e. decodeRequest reqBody = Inl e) \<longleftrightarrow>
      (\<exists>e. readValue reqBody = Inl e) \<or> (\<exists>j. readValue reqBody = Inr j \<and> \<not> requestShape j)"
      by (simp add: decodeRequest_def)
  next
    case (Inr v)
    with unmarshal_cases[of v]
    show "(\<exists>e. decodeRequest reqBody = Inl e) \<longleftrightarrow>
      (\<exists>e. readValue reqBody = Inl e) \<or> (\<exists>j. readValue reqBody = Inr j \<and> \<not> requestShape j)"
      by (cases "requestShape v") (auto simp: decodeRequest_def)
  qed
qed

theorem lenient_bodies_accepted_witness:
  \<open>postAnswers decodeRequest goodConn newServer newResponseWriter ''{}''
      = Some (\<lparr>store = \<lparr>mu = False, answers = [\<lparr>Answers = []\<rparr>]\<rparr>, logs = []\<rparr>,
              \<lparr>header = [''Content-Type'' \<mapsto> ''application/json''], code = Some 200,
               body = ''{"status":"ok"}'' @ [CHR 0x0A]\<rparr>) \<and>
    unmarshal (JObject [(''name'', JString ''x''), (''id'', JArray [JNumber ''1'', JObject []])])
      = Inr \<lparr>Answers = []\<rparr> \<and>
    readValue ''not-json'' = Inl SyntaxError \<and>
    postAnswers decodeRequest goodConn newServer newResponseWriter ''not-json''
      = Some (newServer, Error goodConn newResponseWriter ''invalid JSON payload'' StatusBadRequest)\<close>
proof -
  have r: "readValue ''{}'' = Inr (JObject [])" by code_simp
  have s: "requestShape (JObject [])" by (simp add: requestShape_def)
  have m: "\<not> mu (store newServer)" by (simp add: newServer_def newStore_def)
  have c: "code newResponseWriter = None" by (simp add: newResponseWriter_def)
  have g: \<open>goodConn (''{"status":"ok"}'' @ [CHR 0x0A]) = (length (''{"status":"ok"}'' @ [CHR 0x0A]), None)\<close>
    by (simp add: goodConn_def)
  have n: "readValue ''not-json'' = Inl SyntaxError" by code_simp
  have k: "list_all (\<lambda>kv. \<not> fieldMatch ''answers'' (fst kv))
             [(''name'', JString ''x''), (''id'', JArray [JNumber ''1'', JObject []])]"
    by code_simp
  note t1 = lenient_bodies_accepted[of "''{}''" "JObject []" newServer newResponseWriter goodConn]
  note t2 = lenient_bodies_accepted[of "''not-json''"
      "JObject [(''name'', JString ''x''), (''id'', JArray [JNumber ''1'', JObject []])]"
      newServer newResponseWriter goodConn]
  have u: "unmarshal (JObject []) = Inr \<lparr>Answers = []\<rparr>" by (simp add: unmarshal_def)
  from t1 r s m c g u have 1: \<open>postAnswers decodeRequest goodConn newServer newResponseWriter ''{}''
      = Some (\<lparr>store = \<lparr>mu = False, answers = [\<lparr>Answers = []\<rparr>]\<rparr>, logs = []\<rparr>,
              \<lparr>header = [''Content-Type'' \<mapsto> ''application/json''], code = Some 200,
               body = ''{"status":"ok"}'' @ [CHR 0x0A]\<rparr>)\<close>
    by (simp add: newServer_def newStore_def newResponseWriter_def)
  from t2 k have 2: "unmarshal (JObject [(''name'', JString ''x''), (''id'', JArray [JNumber ''1'', JObject []])])
      = Inr \<lparr>Answers = []\<rparr>" by blast
  from t2 n have 3: "postAnswers decodeRequest goodConn newServer newResponseWriter ''not-json''
      = Some (newServer, Error goodConn newResponseWriter ''invalid JSON payload'' StatusBadRequest)"
    by blast
  from 1 2 3 n show ?thesis by simp
qed



section \<open>Concurrent calls of \<open>save\<close>\<close>

text \<open>The invariant holds at the start and is kept by every step.\<close>

lemma saveInv_iff:
  "saveInv xs0 reqs (s, ts) \<longleftrightarrow>
     map snd ts = reqs \<and>
     length (filter inCrit ts) = (if mu s then 1 else 0) \<and>
     (\<exists>ys. answers s = xs0 @ ys \<and> mset ys = mset (map snd (filter hasStored ts))) \<and>
     (\<forall>t \<in> set ts. \<forall>xs. fst t = Loaded xs \<longrightarrow> xs = answers s)"
  by (simp add: saveInv_def)

lemma saveInv_init: "\<not> mu s0 \<Longrightarrow> saveInv (answers s0) reqs (s0, callers reqs)"
  by (auto simp: saveInv_iff callers_def inCrit_def hasStored_def comp_def filter_empty_conv)

lemma one_inCrit:
  assumes "length (filter inCrit (ts @ t # us)) = (if m then 1 else 0)" and "inCrit t"
  shows "m \<and> (\<forall>u \<in> set ts \<union> set us. \<not> inCrit u)"
proof -
  from assms have "m \<and> filter inCrit ts = [] \<and> filter inCrit us = []"
    by (auto split: if_splits)
  then show ?thesis by (auto simp: filter_empty_conv)
qed

lemma not_inCrit_Loaded: "\<not> inCrit u \<Longrightarrow> fst u \<noteq> Loaded xs"
  by (auto simp: inCrit_def)

lemma saveInv_step:
  assumes "saveInv xs0 reqs c" and "cstep c c'"
  shows "saveInv xs0 reqs c'"
  using assms(2)
proof (cases rule: cstep.cases)
  case (c_lock s s' ts r us)
  then have m: "\<not> mu s" and s': "s' = s\<lparr>mu := True\<rparr>" by (auto simp: Lock_def split: if_splits)
  from assms(1) have i: "saveInv xs0 reqs (s, ts @ (Start, r) # us)" by (simp add: c_lock)
  then show ?thesis unfolding c_lock s' saveInv_iff using m
    by (auto simp: inCrit_def hasStored_def)
next
  case (c_load s ts r us)
  from assms(1) have i: "saveInv xs0 reqs (s, ts @ (Held, r) # us)" by (simp add: c_load)
  then show ?thesis unfolding c_load saveInv_iff
    by (auto simp: inCrit_def hasStored_def)
next
  case (c_store s ts xs r us)
  from assms(1) have i: "saveInv xs0 reqs (s, ts @ (Loaded xs, r) # us)" by (simp add: c_store)
  from i have n: "length (filter inCrit (ts @ (Loaded xs, r) # us)) = (if mu s then 1 else 0)"
    and q: "map snd (ts @ (Loaded xs, r) # us) = reqs"
    unfolding saveInv_iff by blast+
  from i have x: "xs = answers s"
    unfolding saveInv_iff by auto
  from i obtain ys where y: "answers s = xs0 @ ys"
    "mset ys = mset (map snd (filter hasStored (ts @ (Loaded xs, r) # us)))"
    unfolding saveInv_iff by blast
  have c: "inCrit (Loaded xs, r)" by (simp add: inCrit_def)
  from one_inCrit[OF n c] have o: "mu s" "\<forall>u \<in> set ts \<union> set us. \<not> inCrit u" by simp_all
  have l: "\<forall>t \<in> set (ts @ (Stored, r) # us). \<forall>zs. fst t = Loaded zs \<longrightarrow> zs = xs @ [r]"
    using o(2) not_inCrit_Loaded by auto
  have k: "length (filter inCrit (ts @ (Stored, r) # us)) = (if mu s then 1 else 0)"
    using n by (simp add: inCrit_def)
  have a: "xs @ [r] = xs0 @ (ys @ [r])" using x y(1) by simp
  have b: "mset (ys @ [r]) = mset (map snd (filter hasStored (ts @ (Stored, r) # us)))"
    using y(2) by (simp add: hasStored_def)
  show ?thesis unfolding c_store saveInv_iff
    using q k a b l by (intro conjI) (simp, simp, (rule exI[of _ "ys @ [r]"], simp), simp)
next
  case (c_unlock s ts r us)
  from assms(1) have i: "saveInv xs0 reqs (s, ts @ (Stored, r) # us)" by (simp add: c_unlock)
  from i have n: "length (filter inCrit (ts @ (Stored, r) # us)) = (if mu s then 1 else 0)"
    unfolding saveInv_iff by blast
  have c: "inCrit (Stored, r)" by (simp add: inCrit_def)
  from one_inCrit[OF n c] have o: "mu s" "\<forall>u \<in> set ts \<union> set us. \<not> inCrit u" by simp_all
  then have f: "filter inCrit ts = []" "filter inCrit us = []" by (auto simp: filter_empty_conv)
  from i show ?thesis unfolding c_unlock saveInv_iff Unlock_def using f
    by (auto simp: inCrit_def hasStored_def)
qed

lemma saveInv_steps:
  assumes "cstep\<^sup>*\<^sup>* c c'" and "saveInv xs0 reqs c"
  shows "saveInv xs0 reqs c'"
  using assms by (induction rule: rtranclp_induct) (auto intro: saveInv_step)

lemma saveInv_final:
  assumes "saveInv xs0 reqs (s, ts)" and "allDone ts"
  shows "\<not> mu s \<and> (\<exists>ys. answers s = xs0 @ ys \<and> mset ys = mset reqs)"
proof -
  from assms(2) have d: "\<forall>t \<in> set ts. fst t = Done" by (simp add: allDone_def list_all_iff)
  then have f: "filter inCrit ts = []" and g: "filter hasStored ts = ts"
    by (auto simp: filter_empty_conv inCrit_def hasStored_def filter_id_conv)
  from assms(1) obtain ys where y: "answers s = xs0 @ ys"
    "mset ys = mset (map snd (filter hasStored ts))" unfolding saveInv_iff by blast
  from assms(1) have q: "map snd ts = reqs"
    and n: "length (filter inCrit ts) = (if mu s then 1 else 0)"
    unfolding saveInv_iff by blast+
  from n f have "\<not> mu s" by (simp split: if_splits)
  moreover from y(2) have "mset ys = mset reqs" unfolding g q .
  ultimately show ?thesis using y(1) by blast
qed


text \<open>A caller alone goes through its four steps, which is \<open>save\<close>; so the callers can
  run one after the other, and a system that is not finished is never stuck.\<close>

lemma run_one:
  assumes "\<not> mu s"
  shows "cstep\<^sup>*\<^sup>* (s, ds @ (Start, r) # us) (s\<lparr>answers := answers s @ [r]\<rparr>, ds @ (Done, r) # us)"
proof -
  have l: "Lock s = Some (s\<lparr>mu := True\<rparr>)" using assms by (simp add: Lock_def)
  have 1: "cstep (s, ds @ (Start, r) # us) (s\<lparr>mu := True\<rparr>, ds @ (Held, r) # us)"
    by (rule c_lock[OF l])
  have 2: "cstep (s\<lparr>mu := True\<rparr>, ds @ (Held, r) # us)
                 (s\<lparr>mu := True\<rparr>, ds @ (Loaded (answers (s\<lparr>mu := True\<rparr>)), r) # us)"
    by (rule c_load)
  have 3: "cstep (s\<lparr>mu := True\<rparr>, ds @ (Loaded (answers (s\<lparr>mu := True\<rparr>)), r) # us)
                 (s\<lparr>mu := True\<rparr>\<lparr>answers := answers (s\<lparr>mu := True\<rparr>) @ [r]\<rparr>, ds @ (Stored, r) # us)"
    by (rule c_store)
  have 4: "cstep (s\<lparr>mu := True\<rparr>\<lparr>answers := answers (s\<lparr>mu := True\<rparr>) @ [r]\<rparr>, ds @ (Stored, r) # us)
                 (Unlock (s\<lparr>mu := True\<rparr>\<lparr>answers := answers (s\<lparr>mu := True\<rparr>) @ [r]\<rparr>), ds @ (Done, r) # us)"
    by (rule c_unlock)
  have e: "Unlock (s\<lparr>mu := True\<rparr>\<lparr>answers := answers (s\<lparr>mu := True\<rparr>) @ [r]\<rparr>) = s\<lparr>answers := answers s @ [r]\<rparr>"
    using assms by (simp add: Unlock_def)
  from 1 2 3 4 show ?thesis unfolding e by (meson rtranclp.rtrancl_into_rtrancl rtranclp.rtrancl_refl)
qed

lemma run_save:
  assumes "save s r = Some s'"
  shows "cstep\<^sup>*\<^sup>* (s, callers [r]) (s', [(Done, r)])"
proof -
  from assms have "\<not> mu s" and "s' = s\<lparr>answers := answers s @ [r]\<rparr>"
    by (auto simp: save_def Lock_def Unlock_def split: if_splits)
  with run_one[of s "[]" r "[]"] show ?thesis by (simp add: callers_def)
qed

lemma run_all:
  assumes "\<not> mu s"
  shows "cstep\<^sup>*\<^sup>* (s, ds @ map (Pair Start) rs) (s\<lparr>answers := answers s @ rs\<rparr>, ds @ map (Pair Done) rs)"
  using assms
proof (induction rs arbitrary: s ds)
  case Nil
  then show ?case by simp
next
  case (Cons r rs)
  let ?s = "s\<lparr>answers := answers s @ [r]\<rparr>"
  have 1: "cstep\<^sup>*\<^sup>* (s, ds @ (Start, r) # map (Pair Start) rs) (?s, ds @ (Done, r) # map (Pair Start) rs)"
    by (rule run_one[OF Cons.prems])
  have "\<not> mu ?s" using Cons.prems by simp
  from Cons.IH[OF this, of "ds @ [(Done, r)]"]
  have 2: "cstep\<^sup>*\<^sup>* (?s, ds @ (Done, r) # map (Pair Start) rs)
                   (s\<lparr>answers := answers s @ r # rs\<rparr>, ds @ (Done, r) # map (Pair Done) rs)"
    by simp
  from 1 2 show ?case by simp
qed

lemma progress:
  assumes "saveInv xs0 reqs (s, ts)" and "\<not> allDone ts"
  shows "\<exists>c'. cstep (s, ts) c'"
proof (cases "\<exists>u \<in> set ts. inCrit u")
  case True
  then obtain u where u: "u \<in> set ts" "inCrit u" by blast
  then obtain ts1 us where t: "ts = ts1 @ u # us" by (meson split_list)
  obtain p r where p: "u = (p, r)" by (cases u)
  with u(2) have "p = Held \<or> (\<exists>xs. p = Loaded xs) \<or> p = Stored"
    by (cases p) (simp_all add: inCrit_def)
  then show ?thesis unfolding t p
    using c_load[of s ts1 r us] c_store[of s ts1 _ r us] c_unlock[of s ts1 r us] by blast
next
  case False
  then have f: "filter inCrit ts = []" by (simp add: filter_empty_conv)
  from assms(1) have "length (filter inCrit ts) = (if mu s then 1 else 0)"
    unfolding saveInv_iff by blast
  with f have m: "\<not> mu s" by (simp split: if_splits)
  from assms(2) obtain u where u: "u \<in> set ts" "fst u \<noteq> Done"
    by (auto simp: allDone_def list_all_iff)
  with False have "fst u = Start" by (auto simp: inCrit_def)
  then obtain r where p: "u = (Start, r)" by (cases u) simp
  from u(1) obtain ts1 us where t: "ts = ts1 @ u # us" by (meson split_list)
  have "Lock s = Some (s\<lparr>mu := True\<rparr>)" using m by (simp add: Lock_def)
  from c_lock[OF this, of ts1 r us] show ?thesis unfolding t p by blast
qed

text \<open>The store at the end of a complete run is the store that \<open>save\<close>, called for
  the batches one after the other in some order, returns.\<close>

lemma saveAll_unlocked:
  "\<not> mu s \<Longrightarrow> saveAll s rs = Some (s\<lparr>answers := answers s @ rs\<rparr>)"
proof (induction rs arbitrary: s)
  case Nil
  then show ?case by simp
next
  case (Cons r rs)
  have "\<not> mu (s\<lparr>answers := answers s @ [r]\<rparr>)" using Cons.prems by simp
  from Cons.IH[OF this] show ?case by (simp add: save_unlocked[OF Cons.prems])
qed

lemma final_store:
  fixes s s0 :: answerStore
  assumes "\<not> mu s0" and "\<not> mu s" and "answers s = answers s0 @ ys"
  shows "s = s0\<lparr>answers := answers s0 @ ys\<rparr>"
  using assms by (cases s, cases s0) simp

lemma complete_run_is_saveAll:
  assumes "\<not> mu s0" and "cstep\<^sup>*\<^sup>* (s0, callers reqs) (s, ts)" and "allDone ts"
  shows "\<exists>ys. mset ys = mset reqs \<and> saveAll s0 ys = Some s \<and> answers s = answers s0 @ ys \<and>
           ts = map (Pair Done) reqs"
proof -
  have i: "saveInv (answers s0) reqs (s, ts)"
    by (rule saveInv_steps[OF assms(2) saveInv_init[OF assms(1)]])
  from saveInv_final[OF i assms(3)] obtain ys where m: "\<not> mu s"
    and y: "answers s = answers s0 @ ys" "mset ys = mset reqs" by blast
  from final_store[OF assms(1) m y(1)] saveAll_unlocked[OF assms(1), of ys]
  have a: "saveAll s0 ys = Some s" by simp
  from i have q: "map snd ts = reqs" unfolding saveInv_iff by blast
  from assms(3) have d: "\<forall>t \<in> set ts. fst t = Done" by (simp add: allDone_def list_all_iff)
  have "ts = map (Pair Done) (map snd ts)"
    using d by (induction ts) auto
  with q have t: "ts = map (Pair Done) reqs" by simp
  from y a t show ?thesis by blast
qed

text \<open>
  C4. Take a store whose mutex is free and any number of concurrent calls of \<open>save\<close>, one
  per batch of \<open>reqs\<close>. Whatever the interleaving of their steps: when all the calls
  have returned, the store is the one that \<open>save\<close> returns when it is called for the
  batches one after the other in some order \<open>ys\<close> of \<open>reqs\<close>. So the stored sequence is
  the initial one followed by the submitted batches in that order, each batch as one
  element and as often as it was submitted (exactly once each when the batches are
  distinct), and its length is the initial length plus the number of calls. Such
  complete runs exist (the calls in the order of \<open>reqs\<close> are one), and a run that is not
  complete can always go on: no call waits forever. For one caller the complete runs
  are exactly the returns of \<open>save\<close>.
\<close>

theorem concurrent_saves_serialized:
  assumes "\<not> mu s0"
  shows "(\<exists>s ts. cstep\<^sup>*\<^sup>* (s0, callers reqs) (s, ts) \<and> allDone ts \<and> saveAll s0 reqs = Some s) \<and>
         (\<forall>s ts. cstep\<^sup>*\<^sup>* (s0, callers reqs) (s, ts) \<longrightarrow>
            (\<not> allDone ts \<longrightarrow> (\<exists>c'. cstep (s, ts) c')) \<and>
            (allDone ts \<longrightarrow>
               (\<exists>ys. mset ys = mset reqs \<and> saveAll s0 ys = Some s \<and>
                     answers s = answers s0 @ ys \<and>
                     length (answers s) = length (answers s0) + length reqs \<and>
                     (distinct reqs \<longrightarrow> distinct ys \<and> set ys = set reqs)))) \<and>
         (\<forall>r s ts. (cstep\<^sup>*\<^sup>* (s0, callers [r]) (s, ts) \<and> allDone ts) \<longleftrightarrow>
                    (save s0 r = Some s \<and> ts = [(Done, r)]))"
proof (intro conjI allI impI)
  from run_all[OF assms, of "[]" reqs]
  have "cstep\<^sup>*\<^sup>* (s0, callers reqs) (s0\<lparr>answers := answers s0 @ reqs\<rparr>, map (Pair Done) reqs)"
    by (simp add: callers_def)
  moreover have "allDone (map (Pair Done) reqs)" by (simp add: allDone_def list_all_iff)
  ultimately show "\<exists>s ts. cstep\<^sup>*\<^sup>* (s0, callers reqs) (s, ts) \<and> allDone ts \<and> saveAll s0 reqs = Some s"
    using saveAll_unlocked[OF assms, of reqs] by blast
next
  fix s ts
  assume r: "cstep\<^sup>*\<^sup>* (s0, callers reqs) (s, ts)"
  have i: "saveInv (answers s0) reqs (s, ts)"
    by (rule saveInv_steps[OF r saveInv_init[OF assms]])
  {
    assume "\<not> allDone ts"
    with i show "\<exists>c'. cstep (s, ts) c'" by (rule progress)
  next
    assume "allDone ts"
    from complete_run_is_saveAll[OF assms r this] obtain ys where
      y: "mset ys = mset reqs" "saveAll s0 ys = Some s" "answers s = answers s0 @ ys"
      by blast
    from y(1) have l: "length ys = length reqs" by (rule mset_eq_length)
    from y(1) have d: "distinct reqs \<longrightarrow> distinct ys \<and> set ys = set reqs"
      by (metis mset_eq_setD mset_eq_imp_distinct_iff)
    from y l d show "\<exists>ys. mset ys = mset reqs \<and> saveAll s0 ys = Some s \<and>
                     answers s = answers s0 @ ys \<and>
                     length (answers s) = length (answers s0) + length reqs \<and>
                     (distinct reqs \<longrightarrow> distinct ys \<and> set ys = set reqs)"
      by auto
  }
next
  fix r s ts
  show "(cstep\<^sup>*\<^sup>* (s0, callers [r]) (s, ts) \<and> allDone ts) \<longleftrightarrow>
          (save s0 r = Some s \<and> ts = [(Done, r)])"
  proof
    assume a: "cstep\<^sup>*\<^sup>* (s0, callers [r]) (s, ts) \<and> allDone ts"
    then obtain ys where y: "mset ys = mset [r]" "saveAll s0 ys = Some s" "ts = map (Pair Done) [r]"
      using complete_run_is_saveAll[OF assms, of "[r]" s ts] by blast
    from y(1) have "ys = [r]" by simp
    with y(2,3) show "save s0 r = Some s \<and> ts = [(Done, r)]"
      by (simp split: option.splits)
  next
    assume b: "save s0 r = Some s \<and> ts = [(Done, r)]"
    with run_save[of s0 r s] show "cstep\<^sup>*\<^sup>* (s0, callers [r]) (s, ts) \<and> allDone ts"
      by (simp add: allDone_def)
  qed
qed

theorem concurrent_saves_serialized_witness:
  "cstep\<^sup>*\<^sup>* (newStore, callers [\<lparr>Answers = [\<lparr>QuestionID = 1, Value = ''a''\<rparr>]\<rparr>,
                                   \<lparr>Answers = [\<lparr>QuestionID = 2, Value = ''b''\<rparr>]\<rparr>])
     (\<lparr>mu = False, answers = [\<lparr>Answers = [\<lparr>QuestionID = 2, Value = ''b''\<rparr>]\<rparr>,
                              \<lparr>Answers = [\<lparr>QuestionID = 1, Value = ''a''\<rparr>]\<rparr>]\<rparr>,
      [(Done, \<lparr>Answers = [\<lparr>QuestionID = 1, Value = ''a''\<rparr>]\<rparr>),
       (Done, \<lparr>Answers = [\<lparr>QuestionID = 2, Value = ''b''\<rparr>]\<rparr>)]) \<and>
   saveAll newStore [\<lparr>Answers = [\<lparr>QuestionID = 2, Value = ''b''\<rparr>]\<rparr>,
                     \<lparr>Answers = [\<lparr>QuestionID = 1, Value = ''a''\<rparr>]\<rparr>]
     = Some \<lparr>mu = False, answers = [\<lparr>Answers = [\<lparr>QuestionID = 2, Value = ''b''\<rparr>]\<rparr>,
                                     \<lparr>Answers = [\<lparr>QuestionID = 1, Value = ''a''\<rparr>]\<rparr>]\<rparr> \<and>
   (\<exists>ys. mset ys = mset [\<lparr>Answers = [\<lparr>QuestionID = 1, Value = ''a''\<rparr>]\<rparr>,
                            \<lparr>Answers = [\<lparr>QuestionID = 2, Value = ''b''\<rparr>]\<rparr>] \<and>
      saveAll newStore ys
        = Some \<lparr>mu = False, answers = [\<lparr>Answers = [\<lparr>QuestionID = 2, Value = ''b''\<rparr>]\<rparr>,
                                        \<lparr>Answers = [\<lparr>QuestionID = 1, Value = ''a''\<rparr>]\<rparr>]\<rparr> \<and>
      distinct ys \<and> length ys = 2)"
proof -
  let ?a = "\<lparr>Answers = [\<lparr>QuestionID = 1, Value = ''a''\<rparr>]\<rparr>"
  let ?b = "\<lparr>Answers = [\<lparr>QuestionID = 2, Value = ''b''\<rparr>]\<rparr>"
  let ?s1 = "\<lparr>mu = False, answers = [?b]\<rparr>"
  let ?s2 = "\<lparr>mu = False, answers = [?b, ?a]\<rparr>"
  have m: "\<not> mu newStore" by (simp add: newStore_def)
  from run_one[OF m, of "[(Start, ?a)]" ?b "[]"]
  have 1: "cstep\<^sup>*\<^sup>* (newStore, callers [?a, ?b]) (?s1, [(Start, ?a), (Done, ?b)])"
    by (simp add: callers_def newStore_def)
  have "\<not> mu ?s1" by simp
  from run_one[OF this, of "[]" ?a "[(Done, ?b)]"]
  have 2: "cstep\<^sup>*\<^sup>* (?s1, [(Start, ?a), (Done, ?b)]) (?s2, [(Done, ?a), (Done, ?b)])"
    by simp
  from 1 2 have r: "cstep\<^sup>*\<^sup>* (newStore, callers [?a, ?b]) (?s2, [(Done, ?a), (Done, ?b)])"
    by (rule rtranclp_trans)
  have d: "allDone [(Done, ?a), (Done, ?b)]" by (simp add: allDone_def)
  have q: "distinct [?a, ?b]" by simp
  have e: "saveAll newStore [?b, ?a] = Some ?s2"
    by (simp add: save_def Lock_def Unlock_def newStore_def)
  from concurrent_saves_serialized[OF m, of "[?a, ?b]"] r d q
  obtain ys where "mset ys = mset [?a, ?b]" "saveAll newStore ys = Some ?s2"
    "length (answers ?s2) = length (answers newStore) + length [?a, ?b]" "distinct ys"
    "answers ?s2 = answers newStore @ ys"
    by blast
  with r e show ?thesis by (auto simp: newStore_def)
qed


end
